theory Spec2Isabelle
  imports Main "HOL-Library.AList" "HOL-Library.Sublist"
begin

section \<open>A git smart-HTTP front end over git http-backend (server.js)\<close>

text \<open>
  The program is one file, \<^verbatim>\<open>src/server.js\<close>. It has three parts: the provisioning of
  three bare repositories when the module is loaded (lines 14-31), the request handler
  that answers 400 and 404 itself and hands every other request to a spawned
  \<^verbatim>\<open>git http-backend\<close> (lines 33-150), and inside the latter the listeners that turn
  the CGI output of the backend into the HTTP response (lines 62-125).

  The embedding is a trace model. The program never reads anything back from the response
  object, so what it does to a request is the sequence of calls it makes on \<^verbatim>\<open>res\<close>
  (\<open>calls\<close>) together with the effects it has on the console, the file system and the
  process table (\<open>effects\<close>). Node refuses some calls by throwing: \<^verbatim>\<open>setHeader\<close> a name that
  is no token or a value with a forbidden character, \<^verbatim>\<open>write\<close> and \<^verbatim>\<open>end\<close> a status code
  outside 100-999 when they send the head. The program catches nothing, so a refused call
  ends the listener where it stands and, being uncaught, the process with it: a result
  \<open>Inl (e, c)\<close> is the exception \<open>e\<close> thrown in the state \<open>c\<close>.
\<close>

subsection \<open>Strings and buffers\<close>

text \<open>
  A \<^verbatim>\<open>Buffer\<close> is a list of bytes and a JavaScript string a list of characters; both are
  \<open>char list\<close>, a character standing for its code up to U+00FF. The methods keep their
  JavaScript names, the receiver is the first argument.
\<close>

type_synonym bytes = string

definition code :: "char \<Rightarrow> nat" where
  "code c = of_char c"

definition startsWith :: "'a list \<Rightarrow> 'a list \<Rightarrow> bool" where
  "startsWith s p = (take (length p) s = p)"

fun includes_sub :: "'a list \<Rightarrow> 'a list \<Rightarrow> bool" where
  "includes_sub [] sub = (sub = [])"
| "includes_sub (c # cs) sub = (startsWith (c # cs) sub \<or> includes_sub cs sub)"

text \<open>
  \<^verbatim>\<open>s.includes(sub)\<close> is \<open>includes_sub s sub\<close> above. \<^verbatim>\<open>buf.indexOf(sub)\<close> is the least
  index at which \<open>sub\<close> occurs; \<open>None\<close> is JavaScript's -1.
\<close>

fun indexOf :: "'a list \<Rightarrow> 'a list \<Rightarrow> nat option" where
  "indexOf [] sub = (if sub = [] then Some 0 else None)"
| "indexOf (c # cs) sub =
     (if startsWith (c # cs) sub then Some 0 else map_option Suc (indexOf cs sub))"

text \<open>
  \<^verbatim>\<open>s.split(sep)\<close> for a separator that is not empty (the program splits at \<^verbatim>\<open>':'\<close>,
  \<^verbatim>\<open>' '\<close> and CR LF). The second argument collects the piece being read.
\<close>

function split_from :: "string \<Rightarrow> string \<Rightarrow> string \<Rightarrow> string list" where
  "split_from sep piece [] = [piece]"
| "split_from sep piece (c # cs) =
     (if sep \<noteq> [] \<and> startsWith (c # cs) sep
      then piece # split_from sep [] (drop (length sep) (c # cs))
      else split_from sep (piece @ [c]) cs)"
  by pat_completeness auto
termination
  by (relation "measure (\<lambda>(sep, piece, s). length s)") (auto simp: neq_Nil_conv)

definition split :: "string \<Rightarrow> string \<Rightarrow> string list" where
  "split s sep = split_from sep [] s"

fun join :: "string list \<Rightarrow> string \<Rightarrow> string" where
  "join [] sep = []"
| "join [p] sep = p"
| "join (p # q # ps) sep = p @ sep @ join (q # ps) sep"

text \<open>\<^verbatim>\<open>xs[i]\<close>, which is \<^verbatim>\<open>undefined\<close> (here \<open>None\<close>) out of range.\<close>

fun at :: "'a list \<Rightarrow> nat \<Rightarrow> 'a option" where
  "at [] i = None"
| "at (x # xs) 0 = Some x"
| "at (x # xs) (Suc i) = at xs i"

text \<open>
  \<^verbatim>\<open>x || d\<close> for a string \<open>x\<close> that may be \<^verbatim>\<open>undefined\<close>: both \<^verbatim>\<open>undefined\<close> and the
  empty string are falsy.
\<close>

definition or_else :: "string option \<Rightarrow> string \<Rightarrow> string" where
  "or_else x d = (case x of None \<Rightarrow> d | Some v \<Rightarrow> if v = [] then d else v)"

text \<open>
  White space as \<^verbatim>\<open>trim\<close> and \<^verbatim>\<open>parseInt\<close> see it, among the characters up to U+00FF:
  tab, line feed, vertical tab, form feed, carriage return, space and no-break space.
  \<^verbatim>\<open>toLowerCase\<close> on the same range: A-Z (65-90) and the capital letters of Latin-1
  (192-222 but the multiplication sign 215) move up by 32.
\<close>

definition isWhiteSpace :: "char \<Rightarrow> bool" where
  "isWhiteSpace c = (code c \<in> set [9, 10, 11, 12, 13, 32, 160])"

definition trim :: "string \<Rightarrow> string" where
  "trim s = rev (dropWhile isWhiteSpace (rev (dropWhile isWhiteSpace s)))"

definition lower_char :: "char \<Rightarrow> char" where
  "lower_char c =
     (let n = code c
      in if (65 \<le> n \<and> n \<le> 90) \<or> (192 \<le> n \<and> n \<le> 222 \<and> n \<noteq> 215) then char_of (n + 32) else c)"

definition toLowerCase :: "string \<Rightarrow> string" where
  "toLowerCase s = map lower_char s"

definition is_alpha :: "char \<Rightarrow> bool" where
  "is_alpha c = ((65 \<le> code c \<and> code c \<le> 90) \<or> (97 \<le> code c \<and> code c \<le> 122))"

definition is_decimal :: "char \<Rightarrow> bool" where
  "is_decimal c = (48 \<le> code c \<and> code c \<le> 57)"

subsection \<open>Numbers: \<^verbatim>\<open>parseInt\<close> and \<^verbatim>\<open>| 0\<close>\<close>

text \<open>
  A status code is a JavaScript number. The numbers that occur here are the values of
  \<^verbatim>\<open>parseInt\<close>: \<^verbatim>\<open>NaN\<close>, an infinity, or a double that is an integer. \<open>to_double\<close> rounds a
  natural number to the nearest double, ties to the even mantissa, as IEEE 754 has it:
  below 2^53 every integer is a double; above, 53 bits are kept; from 2^1024 on the
  result is infinite.
\<close>

datatype jsnum = Num int | NaN | Infinity | MinusInfinity

fun bit_length :: "nat \<Rightarrow> nat" where
  "bit_length n = (if n = 0 then 0 else Suc (bit_length (n div 2)))"

declare bit_length.simps [simp del]

definition to_double :: "nat \<Rightarrow> jsnum" where
  "to_double n =
     (if n < 2 ^ 53 then Num (int n)
      else let e = bit_length n - 53;
               q = n div 2 ^ e;
               r = n mod 2 ^ e;
               q' = (if 2 * r > 2 ^ e \<or> (2 * r = 2 ^ e \<and> odd q) then q + 1 else q)
           in if q' * 2 ^ e \<ge> 2 ^ 1024 then Infinity else Num (int (q' * 2 ^ e)))"

definition negate :: "jsnum \<Rightarrow> jsnum" where
  "negate x =
     (case x of Num n \<Rightarrow> Num (- n) | NaN \<Rightarrow> NaN | Infinity \<Rightarrow> MinusInfinity
      | MinusInfinity \<Rightarrow> Infinity)"

text \<open>
  \<^verbatim>\<open>parseInt(s)\<close> with no radix skips leading white space, reads a sign, takes radix 16
  after \<^verbatim>\<open>0x\<close> or \<^verbatim>\<open>0X\<close> and radix 10 otherwise, and reads the longest run of digits; with
  no digit the result is \<^verbatim>\<open>NaN\<close>.
\<close>

definition digit_of :: "char \<Rightarrow> nat option" where
  "digit_of c =
     (let n = code c
      in if 48 \<le> n \<and> n \<le> 57 then Some (n - 48)
         else if 97 \<le> n \<and> n \<le> 122 then Some (n - 87)
         else if 65 \<le> n \<and> n \<le> 90 then Some (n - 55)
         else None)"

definition is_digit :: "nat \<Rightarrow> char \<Rightarrow> bool" where
  "is_digit radix c = (case digit_of c of None \<Rightarrow> False | Some d \<Rightarrow> d < radix)"

definition digits_value :: "nat \<Rightarrow> string \<Rightarrow> nat" where
  "digits_value radix ds = foldl (\<lambda>n c. n * radix + the (digit_of c)) 0 ds"

definition parseInt :: "string \<Rightarrow> jsnum" where
  "parseInt s =
     (let s1 = dropWhile isWhiteSpace s;
          negative = startsWith s1 ''-'';
          s2 = (if startsWith s1 ''-'' \<or> startsWith s1 ''+'' then drop 1 s1 else s1);
          hex = (startsWith s2 ''0x'' \<or> startsWith s2 ''0X'');
          radix = (if hex then 16 else 10);
          s3 = (if hex then drop 2 s2 else s2);
          ds = takeWhile (is_digit radix) s3
      in if ds = [] then NaN
         else if negative then negate (to_double (digits_value radix ds))
         else to_double (digits_value radix ds))"

text \<open>
  \<^verbatim>\<open>x | 0\<close>, the conversion to a signed 32-bit integer: the integer modulo 2^32, read as
  signed; 0 for \<^verbatim>\<open>NaN\<close> and the infinities.
\<close>

definition toInt32 :: "jsnum \<Rightarrow> int" where
  "toInt32 x = (case x of Num n \<Rightarrow> (n + 2147483648) mod 4294967296 - 2147483648 | _ \<Rightarrow> 0)"

subsection \<open>Plain objects used as tables\<close>

text \<open>
  An object literal used as a string table is the list of its own properties in the order
  of their creation. \<open>defineProperty\<close> is what an object literal, a spread and
  \<^verbatim>\<open>Object.fromEntries\<close> do; \<open>assign\<close> is \<^verbatim>\<open>obj[key] = value\<close>, which differs for the one
  key \<^verbatim>\<open>__proto__\<close>: on a plain object that assignment runs the setter of
  \<^verbatim>\<open>Object.prototype\<close>, which ignores a string and creates no property.
\<close>

type_synonym obj = "(string \<times> string) list"

definition defineProperty :: "string \<Rightarrow> string \<Rightarrow> obj \<Rightarrow> obj" where
  "defineProperty k v ob = AList.update k v ob"

definition assign :: "string \<Rightarrow> string \<Rightarrow> obj \<Rightarrow> obj" where
  "assign k v ob = (if k = ''__proto__'' then ob else AList.update k v ob)"

text \<open>
  \<^verbatim>\<open>Object.entries\<close> lists the keys that are array indices (canonical decimal numerals
  below 2^32 - 1) first, in ascending order, and then the others in creation order.
\<close>

definition array_index :: "string \<Rightarrow> int option" where
  "array_index k =
     (if k \<noteq> [] \<and> list_all is_decimal k \<and> (k = ''0'' \<or> hd k \<noteq> CHR ''0'')
         \<and> int (digits_value 10 k) < 4294967295
      then Some (int (digits_value 10 k)) else None)"

definition entries :: "obj \<Rightarrow> (string \<times> string) list" where
  "entries ob =
     sort_key (\<lambda>(k, v). the (array_index k)) (filter (\<lambda>(k, v). array_index k \<noteq> None) ob)
     @ filter (\<lambda>(k, v). array_index k = None) ob"

subsection \<open>The URL parser: \<^verbatim>\<open>new URL(req.url, 'http://localhost')\<close>\<close>

text \<open>
  The parser of the WHATWG URL standard, for a reference resolved against the base
  \<^verbatim>\<open>http://localhost\<close>. The program uses the path and the query of the result; the model
  keeps those two. A character of a set below is written as the \<^verbatim>\<open>%XX\<close> of the bytes of
  its UTF-8 encoding (one byte below 128, two from 128 to 255).
\<close>

definition hex_char :: "nat \<Rightarrow> char" where
  "hex_char n = ''0123456789ABCDEF'' ! n"

definition percent_byte :: "nat \<Rightarrow> string" where
  "percent_byte n = [CHR ''%'', hex_char (n div 16), hex_char (n mod 16)]"

definition utf8_bytes :: "char \<Rightarrow> nat list" where
  "utf8_bytes c = (if code c < 128 then [code c] else [192 + code c div 64, 128 + code c mod 64])"

definition percent_encode :: "(char \<Rightarrow> bool) \<Rightarrow> char \<Rightarrow> string" where
  "percent_encode in_set c = (if in_set c then concat (map percent_byte (utf8_bytes c)) else [c])"

text \<open>
  The percent-encode sets: C0 controls and everything above \<^verbatim>\<open>~\<close>; for a query also
  space, \<^verbatim>\<open>"\<close>, \<^verbatim>\<open>#\<close>, \<^verbatim>\<open><\<close>, \<^verbatim>\<open>>\<close> and, the scheme being special, \<^verbatim>\<open>'\<close>; for a path
  the query set and \<^verbatim>\<open>?\<close>, \<^verbatim>\<open>^\<close>, the backquote and the two braces.
\<close>

definition c0_control_set :: "char \<Rightarrow> bool" where
  "c0_control_set c = (code c \<le> 31 \<or> code c > 126)"

definition query_set :: "char \<Rightarrow> bool" where
  "query_set c = (c0_control_set c \<or> code c \<in> set [32, 34, 35, 60, 62])"

definition special_query_set :: "char \<Rightarrow> bool" where
  "special_query_set c = (query_set c \<or> code c = 39)"

definition path_set :: "char \<Rightarrow> bool" where
  "path_set c = (query_set c \<or> code c \<in> set [63, 94, 96, 123, 125])"

text \<open>
  The path state. A segment ends at a slash, at a backslash (the scheme is special), at
  \<^verbatim>\<open>?\<close>, at \<^verbatim>\<open>#\<close> or at the end. A double-dot segment removes the last segment of the path,
  a single-dot segment adds nothing; either leaves an empty segment when it is the last.
\<close>

definition is_slash :: "char \<Rightarrow> bool" where
  "is_slash c = (c = CHR ''/'' \<or> code c = 92)"

definition single_dot :: "string \<Rightarrow> bool" where
  "single_dot buf = (toLowerCase buf \<in> set [''.'', ''%2e''])"

definition double_dot :: "string \<Rightarrow> bool" where
  "double_dot buf = (toLowerCase buf \<in> set [''..'', ''.%2e'', ''%2e.'', ''%2e%2e''])"

definition end_segment :: "bool \<Rightarrow> string list \<Rightarrow> string \<Rightarrow> string list" where
  "end_segment at_slash path buf =
     (if double_dot buf then (if at_slash then butlast path else butlast path @ [''''])
      else if single_dot buf then (if at_slash then path else path @ [''''])
      else path @ [buf])"

fun path_state :: "string list \<Rightarrow> string \<Rightarrow> string \<Rightarrow> string list \<times> string" where
  "path_state path buf [] = (end_segment False path buf, [])"
| "path_state path buf (c # cs) =
     (if is_slash c then path_state (end_segment True path buf) [] cs
      else if c = CHR ''?'' \<or> c = CHR ''#'' then (end_segment False path buf, c # cs)
      else path_state path (buf @ percent_encode path_set c) cs)"

text \<open>
  The query of a URL is its text up to \<^verbatim>\<open>#\<close>, percent-encoded. \<^verbatim>\<open>url.searchParams\<close> is the
  list of pairs that the \<^verbatim>\<open>application/x-www-form-urlencoded\<close> parser reads in it: the
  pieces between \<^verbatim>\<open>&\<close>, each cut at its first \<^verbatim>\<open>=\<close>, with \<^verbatim>\<open>+\<close> for a space, then
  percent-decoded and decoded as UTF-8. A decoded string is kept as the bytes of its UTF-8
  encoding; \<open>utf8\<close> puts U+FFFD (EF BF BD) where the bytes are no UTF-8, as the decoder does.
\<close>

definition is_hex :: "char \<Rightarrow> bool" where
  "is_hex c = is_digit 16 c"

fun percent_decode :: "string \<Rightarrow> bytes" where
  "percent_decode (a # b # c # rest) =
     (if a = CHR ''%'' \<and> is_hex b \<and> is_hex c
      then char_of (16 * the (digit_of b) + the (digit_of c)) # percent_decode rest
      else a # percent_decode (b # c # rest))"
| "percent_decode s = s"

definition replacement :: bytes where
  "replacement = [CHR 0xEF, CHR 0xBF, CHR 0xBD]"

function utf8 :: "nat \<Rightarrow> nat \<Rightarrow> nat \<Rightarrow> bytes \<Rightarrow> bytes \<Rightarrow> bytes" where
  "utf8 needed lo hi seen [] = (if needed = 0 then [] else replacement)"
| "utf8 needed lo hi seen (b # bs) =
     (if needed = 0 then
        (if code b \<le> 0x7F then b # utf8 0 0x80 0xBF [] bs
         else if 0xC2 \<le> code b \<and> code b \<le> 0xDF then utf8 1 0x80 0xBF [b] bs
         else if 0xE0 \<le> code b \<and> code b \<le> 0xEF then
           utf8 2 (if code b = 0xE0 then 0xA0 else 0x80) (if code b = 0xED then 0x9F else 0xBF) [b] bs
         else if 0xF0 \<le> code b \<and> code b \<le> 0xF4 then
           utf8 3 (if code b = 0xF0 then 0x90 else 0x80) (if code b = 0xF4 then 0x8F else 0xBF) [b] bs
         else replacement @ utf8 0 0x80 0xBF [] bs)
      else if lo \<le> code b \<and> code b \<le> hi then
        (if needed = 1 then seen @ [b] @ utf8 0 0x80 0xBF [] bs
         else utf8 (needed - 1) 0x80 0xBF (seen @ [b]) bs)
      else replacement @ utf8 0 0x80 0xBF [] (b # bs))"
  by pat_completeness auto
termination
  by (relation "measure (\<lambda>(needed, lo, hi, seen, s). 2 * length s + (if needed = 0 then 0 else 1))")
     auto

definition form_decode :: "string \<Rightarrow> string" where
  "form_decode s = utf8 0 0x80 0xBF [] (percent_decode (map (\<lambda>c. if c = CHR ''+'' then CHR '' '' else c) s))"

definition form_pair :: "string \<Rightarrow> string \<times> string" where
  "form_pair piece =
     (form_decode (takeWhile (\<lambda>c. c \<noteq> CHR ''='') piece),
      form_decode (drop 1 (dropWhile (\<lambda>c. c \<noteq> CHR ''='') piece)))"

definition form_parse :: "string \<Rightarrow> (string \<times> string) list" where
  "form_parse q = map form_pair (filter (\<lambda>piece. piece \<noteq> []) (split q ''&''))"

text \<open>
  \<^verbatim>\<open>URLSearchParams.toString\<close>, the serializer of the same format: letters, digits,
  \<^verbatim>\<open>*\<close>, \<^verbatim>\<open>-\<close>, \<^verbatim>\<open>.\<close> and \<^verbatim>\<open>_\<close> stand for themselves, a space is \<^verbatim>\<open>+\<close>, every other byte is
  \<^verbatim>\<open>%XX\<close>.
\<close>

definition form_byte :: "char \<Rightarrow> string" where
  "form_byte c =
     (if c = CHR '' '' then ''+''
      else if is_alpha c \<or> is_decimal c \<or> code c \<in> set [42, 45, 46, 95] then [c]
      else percent_byte (code c))"

definition form_encode :: "string \<Rightarrow> string" where
  "form_encode s = concat (map form_byte s)"

definition form_serialize :: "(string \<times> string) list \<Rightarrow> string" where
  "form_serialize ps = join (map (\<lambda>(k, v). form_encode k @ ''='' @ form_encode v) ps) ''&''"

record URL =
  pathname :: string
  searchParams :: "(string \<times> string) list"

definition make_URL :: "string list \<times> string \<Rightarrow> URL" where
  "make_URL parsed =
     (case parsed of (path, rest) \<Rightarrow>
        \<lparr> pathname = concat (map (\<lambda>seg. CHR ''/'' # seg) path),
          searchParams =
            (if startsWith rest ''?''
             then form_parse (concat (map (percent_encode special_query_set)
                                (takeWhile (\<lambda>c. c \<noteq> CHR ''#'') (drop 1 rest))))
             else []) \<rparr>)"

text \<open>
  The authority of a URL with a special scheme: what stands before the next slash,
  backslash, \<^verbatim>\<open>?\<close> or \<^verbatim>\<open>#\<close>. Credentials end at the last \<^verbatim>\<open>@\<close>; the host ends at the
  first colon outside brackets; the port is a decimal numeral up to 65535. The parser
  fails when the host is empty, when the host parser refuses the host (\<open>host_ok\<close>, a
  parameter: it involves IDNA and the parsers of IPv4 and IPv6 addresses) and when the port
  is no such numeral.
\<close>

fun host_end :: "bool \<Rightarrow> string \<Rightarrow> string \<times> string" where
  "host_end inside [] = ([], [])"
| "host_end inside (c # cs) =
     (if c = CHR '':'' \<and> \<not> inside then ([], c # cs)
      else case host_end (if c = CHR ''['' then True else if c = CHR '']'' then False else inside) cs
           of (h, r) \<Rightarrow> (c # h, r))"

definition delimiter :: "char \<Rightarrow> bool" where
  "delimiter c = (is_slash c \<or> c = CHR ''?'' \<or> c = CHR ''#'')"

definition authority_state :: "(string \<Rightarrow> bool) \<Rightarrow> string \<Rightarrow> URL option" where
  "authority_state host_ok s =
     (let auth = takeWhile (\<lambda>c. \<not> delimiter c) s;
          rest = dropWhile (\<lambda>c. \<not> delimiter c) s;
          hostport = rev (takeWhile (\<lambda>c. c \<noteq> CHR ''@'') (rev auth));
          host = fst (host_end False hostport);
          port = drop 1 (snd (host_end False hostport))
      in if host = [] \<or> \<not> host_ok host then None
         else if \<not> list_all is_decimal port \<or> digits_value 10 port > 65535 then None
         else Some (make_URL (path_state [] [] (if startsWith rest ''?'' \<or> startsWith rest ''#''
                                                  then rest else drop 1 rest))))"

text \<open>
  A reference with no scheme is relative to the base, whose path is \<^verbatim>\<open>/\<close>: two leading
  slashes (or backslashes) open an authority, one opens a path, \<^verbatim>\<open>?\<close> and \<^verbatim>\<open>#\<close> keep the
  path of the base, anything else is a path from the root.
\<close>

definition relative_state :: "(string \<Rightarrow> bool) \<Rightarrow> string \<Rightarrow> URL option" where
  "relative_state host_ok s =
     (case s of
        [] \<Rightarrow> Some (make_URL ([''''], []))
      | c # cs \<Rightarrow>
          if is_slash c then
            (case cs of
               [] \<Rightarrow> Some (make_URL (path_state [] [] []))
             | d # ds \<Rightarrow>
                 if is_slash d then authority_state host_ok (dropWhile is_slash ds)
                 else Some (make_URL (path_state [] [] cs)))
          else if c = CHR ''?'' \<or> c = CHR ''#'' then Some (make_URL ([''''], s))
          else Some (make_URL (path_state [] [] s)))"

text \<open>
  The whole parser. The input loses its leading and trailing C0 controls and spaces and all
  its tabs and newlines. A scheme is a letter followed by letters, digits, \<^verbatim>\<open>+\<close>, \<^verbatim>\<open>-\<close>
  and \<^verbatim>\<open>.\<close> up to a colon. After \<^verbatim>\<open>http:\<close>, the scheme of the base, the rest is read as a
  relative reference; after another special scheme an authority follows whatever the
  slashes; a URL of the scheme \<^verbatim>\<open>file\<close> or of a scheme that is not special is left to
  the parameter \<open>other\<close>.
\<close>

definition scheme_char :: "char \<Rightarrow> bool" where
  "scheme_char c = (is_alpha c \<or> is_decimal c \<or> code c \<in> set [43, 45, 46])"

definition scheme_of :: "string \<Rightarrow> (string \<times> string) option" where
  "scheme_of s =
     (case s of
        [] \<Rightarrow> None
      | c # cs \<Rightarrow>
          if is_alpha c \<and> startsWith (dropWhile scheme_char cs) '':''
          then Some (toLowerCase (c # takeWhile scheme_char cs), drop 1 (dropWhile scheme_char cs))
          else None)"

definition strip_input :: "string \<Rightarrow> string" where
  "strip_input s =
     filter (\<lambda>c. code c \<notin> set [9, 10, 13])
       (rev (dropWhile (\<lambda>c. code c \<le> 32) (rev (dropWhile (\<lambda>c. code c \<le> 32) s))))"

definition whatwg_URL :: "(string \<Rightarrow> bool) \<Rightarrow> (string \<Rightarrow> URL option) \<Rightarrow> string \<Rightarrow> URL option" where
  "whatwg_URL host_ok other input =
     (let s = strip_input input in
      case scheme_of s of
        None \<Rightarrow> relative_state host_ok s
      | Some (scheme, rest) \<Rightarrow>
          if scheme = ''http'' then relative_state host_ok rest
          else if scheme \<in> set [''https'', ''ws'', ''wss'', ''ftp'']
          then authority_state host_ok (dropWhile is_slash rest)
          else other s)"

subsection \<open>The runtime, the request and the observable behaviour\<close>

text \<open>
  Four library functions the program calls are parameters of the model: the URL parser
  (\<^verbatim>\<open>new URL(req.url, 'http://localhost')\<close>, which throws on an invalid URL: \<open>None\<close>),
  the UTF-8 decoding \<^verbatim>\<open>Buffer.toString\<close>, the serialisation \<^verbatim>\<open>URLSearchParams.toString\<close>
  and \<^verbatim>\<open>path.join\<close>; so is the word that \<^verbatim>\<open>/bin/sh\<close> makes of a text between double
  quotes. Every theorem that speaks of a runtime \<open>rt\<close> holds for all of them; the examples
  run on \<open>example_rt\<close>, whose parser is \<open>whatwg_URL\<close> above.
\<close>

record runtime =
  new_URL :: "string \<Rightarrow> URL option"
  toString :: "bytes \<Rightarrow> string"
  URLSearchParams_toString :: "(string \<times> string) list \<Rightarrow> string"
  path_join :: "string \<Rightarrow> string \<Rightarrow> string"
  shell_word :: "string \<Rightarrow> string"

text \<open>
  \<^verbatim>\<open>req\<close>: the request target, the method, the header table (Node gives it with lower-case
  names) and the peer address of the socket. The body is a stream the program only pipes.
\<close>

record request =
  url :: string
  req_method :: string
  headers :: "(string \<times> string) list"
  remoteAddress :: "string option"

datatype error =
    ERR_INVALID_URL string
  | ERR_INVALID_HTTP_TOKEN string
  | ERR_INVALID_CHAR string
  | ERR_HTTP_INVALID_STATUS_CODE jsnum
  | ERR_HTTP_HEADERS_SENT
  | ERR_STREAM_WRITE_AFTER_END
  | TypeError string
  | Spawn_error string
  | ExecSync_failed string

datatype res_call =
    SetStatus jsnum
  | SetHeader string string
  | Write bytes
  | End "bytes option"

text \<open>The four commands of the provisioning script (lines 21-27).\<close>

datatype command =
    Mkdir_p string
  | Cd string
  | Git_init_bare
  | Git_config string string

datatype effect =
    ConsoleLog string
  | ConsoleError string string
  | ExistsSync string
  | ExecSync "command list"
  | Spawn string "string list" obj
  | PipeRequestBody

text \<open>
  One request: the calls made on \<^verbatim>\<open>res\<close> that Node accepted, the effects outside the
  response, and the three variables that \<^verbatim>\<open>handleGitRequest\<close> declares for its listeners
  (lines 73-75).
\<close>

record conn =
  calls :: "res_call list"
  effects :: "effect list"
  responseHeaders :: obj
  headersParsed :: bool
  responseBuffer :: bytes

definition fresh :: conn where
  "fresh = \<lparr> calls = [], effects = [], responseHeaders = [], headersParsed = False,
             responseBuffer = [] \<rparr>"

type_synonym outcome = "error \<times> conn + conn"

text \<open>
  What the calls make of the response. Its head leaves with the first \<^verbatim>\<open>write\<close> or
  \<^verbatim>\<open>end\<close>, carrying the status code assigned last before it (200 when none was;
  \<open>response_status\<close> is that number, which Node converts by \<^verbatim>\<open>| 0\<close>) and the headers set
  before it. \<open>response_body\<close> is what \<^verbatim>\<open>write\<close> and \<^verbatim>\<open>end\<close>
  were given, in order. (Node sends these bytes as the body, unless the request is a HEAD
  or the status is 204, 304 or below 200: such a response has no body.)
\<close>

fun is_head_call :: "res_call \<Rightarrow> bool" where
  "is_head_call (SetStatus n) = True"
| "is_head_call (SetHeader k v) = True"
| "is_head_call (Write b) = False"
| "is_head_call (End b) = False"

definition is_body_call :: "res_call \<Rightarrow> bool" where
  "is_body_call c = (\<not> is_head_call c)"

fun is_End :: "res_call \<Rightarrow> bool" where
  "is_End (End b) = True"
| "is_End c = False"

fun is_SetStatus :: "res_call \<Rightarrow> bool" where
  "is_SetStatus (SetStatus n) = True"
| "is_SetStatus c = False"

fun status_of :: "jsnum \<Rightarrow> res_call list \<Rightarrow> jsnum" where
  "status_of n [] = n"
| "status_of n (SetStatus m # cs) = status_of m cs"
| "status_of n (SetHeader k v # cs) = status_of n cs"
| "status_of n (Write b # cs) = n"
| "status_of n (End b # cs) = n"

definition response_status :: "res_call list \<Rightarrow> jsnum" where
  "response_status cs = status_of (Num 200) cs"

fun response_headers :: "res_call list \<Rightarrow> (string \<times> string) list" where
  "response_headers [] = []"
| "response_headers (SetStatus m # cs) = response_headers cs"
| "response_headers (SetHeader k v # cs) = (k, v) # response_headers cs"
| "response_headers (Write b # cs) = []"
| "response_headers (End b # cs) = []"

fun response_body :: "res_call list \<Rightarrow> bytes" where
  "response_body [] = []"
| "response_body (SetStatus m # cs) = response_body cs"
| "response_body (SetHeader k v # cs) = response_body cs"
| "response_body (Write b # cs) = b @ response_body cs"
| "response_body (End None # cs) = response_body cs"
| "response_body (End (Some b) # cs) = b @ response_body cs"

definition response_ended :: "res_call list \<Rightarrow> bool" where
  "response_ended cs = list_ex is_End cs"

definition head_sent :: "res_call list \<Rightarrow> bool" where
  "head_sent cs = list_ex is_body_call cs"

subsection \<open>What Node refuses\<close>

text \<open>
  \<^verbatim>\<open>res.setHeader(name, value)\<close> throws when the head has been sent, when the name is not
  a token of HTTP (the regular expression \<^verbatim>\<open>/^[\^_`a-zA-Z\-0-9!#$%&'*+.|~]+$/\<close>) and when
  the value has a character outside tab, 0x20-0x7E and 0x80-0xFF. The head is sent by the
  first \<^verbatim>\<open>write\<close> or \<^verbatim>\<open>end\<close>, through \<^verbatim>\<open>writeHead(this.statusCode)\<close>, which throws unless
  \<^verbatim>\<open>statusCode | 0\<close> lies between 100 and 999. Assigning \<^verbatim>\<open>res.statusCode\<close> throws nothing,
  nor does \<^verbatim>\<open>end()\<close> on a response that has ended. A \<^verbatim>\<open>write\<close> after the end is an error too;
  no run of the program below comes to it.
\<close>

definition token_char :: "char \<Rightarrow> bool" where
  "token_char c =
     (is_alpha c \<or> is_decimal c
      \<or> code c \<in> set [94, 95, 96, 45, 33, 35, 36, 37, 38, 39, 42, 43, 46, 124, 126])"

definition checkIsHttpToken :: "string \<Rightarrow> bool" where
  "checkIsHttpToken name = (name \<noteq> [] \<and> list_all token_char name)"

definition checkInvalidHeaderChar :: "string \<Rightarrow> bool" where
  "checkInvalidHeaderChar val =
     list_ex (\<lambda>c. \<not> (code c = 9 \<or> (32 \<le> code c \<and> code c \<le> 126) \<or> 128 \<le> code c)) val"

definition status_ok :: "jsnum \<Rightarrow> bool" where
  "status_ok n = (100 \<le> toInt32 n \<and> toInt32 n \<le> 999)"

definition header_refusal :: "string \<Rightarrow> string \<Rightarrow> error option" where
  "header_refusal name val =
     (if \<not> checkIsHttpToken name then Some (ERR_INVALID_HTTP_TOKEN name)
      else if checkInvalidHeaderChar val then Some (ERR_INVALID_CHAR name)
      else None)"

definition head_refusal :: "res_call list \<Rightarrow> error option" where
  "head_refusal cs =
     (if \<not> head_sent cs \<and> \<not> status_ok (response_status cs)
      then Some (ERR_HTTP_INVALID_STATUS_CODE (response_status cs)) else None)"

fun refusal :: "res_call \<Rightarrow> res_call list \<Rightarrow> error option" where
  "refusal (SetStatus n) cs = None"
| "refusal (SetHeader name val) cs =
     (if head_sent cs then Some ERR_HTTP_HEADERS_SENT else header_refusal name val)"
| "refusal (Write b) cs =
     (if response_ended cs then Some ERR_STREAM_WRITE_AFTER_END else head_refusal cs)"
| "refusal (End None) cs = (if response_ended cs then None else head_refusal cs)"
| "refusal (End (Some b)) cs =
     (if response_ended cs then Some ERR_STREAM_WRITE_AFTER_END else head_refusal cs)"

text \<open>
  One call on \<^verbatim>\<open>res\<close>, and a sequence of calls: the first refused call throws and the
  calls after it are not made.
\<close>

definition call :: "res_call \<Rightarrow> conn \<Rightarrow> outcome" where
  "call rc c =
     (case refusal rc (calls c) of
        Some e \<Rightarrow> Inl (e, c)
      | None \<Rightarrow> Inr (c\<lparr> calls := calls c @ [rc] \<rparr>))"

fun do_calls :: "res_call list \<Rightarrow> conn \<Rightarrow> outcome" where
  "do_calls [] c = Inr c"
| "do_calls (rc # rcs) c = (case call rc c of Inl x \<Rightarrow> Inl x | Inr c' \<Rightarrow> do_calls rcs c')"

text \<open>What is known of an outcome from outside: the exception, if any, and the calls made.\<close>

definition thrown :: "outcome \<Rightarrow> error option" where
  "thrown r = (case r of Inl (e, c) \<Rightarrow> Some e | Inr c \<Rightarrow> None)"

definition res_calls :: "outcome \<Rightarrow> res_call list" where
  "res_calls r = (case r of Inl (e, c) \<Rightarrow> calls c | Inr c \<Rightarrow> calls c)"

subsection \<open>\<^verbatim>\<open>handleGitRequest\<close>: the environment and the spawn (lines 33-70)\<close>

definition GIT_PROJECT_ROOT :: "runtime \<Rightarrow> string \<Rightarrow> string" where
  "GIT_PROJECT_ROOT rt dirname = path_join rt dirname ''git-server-volume''"

definition PORT_toString :: string where
  "PORT_toString = ''3334''"

definition header :: "request \<Rightarrow> string \<Rightarrow> string option" where
  "header req name = map_of (headers req) name"

definition host_part :: "request \<Rightarrow> nat \<Rightarrow> string option" where
  "host_part req i = (case header req ''host'' of None \<Rightarrow> None | Some h \<Rightarrow> at (split h '':'') i)"

definition query :: "URL \<Rightarrow> obj" where
  "query u = fold (\<lambda>(k, v). defineProperty k v) (searchParams u) []"

definition env :: "runtime \<Rightarrow> string \<Rightarrow> obj \<Rightarrow> request \<Rightarrow> URL \<Rightarrow> obj" where
  "env rt dirname process_env req u =
     fold (\<lambda>(k, v). defineProperty k v)
       [(''GIT_PROJECT_ROOT'', GIT_PROJECT_ROOT rt dirname),
        (''GIT_HTTP_EXPORT_ALL'', ''1''),
        (''PATH_INFO'', drop 4 (pathname u)),
        (''REQUEST_METHOD'', req_method req),
        (''QUERY_STRING'', URLSearchParams_toString rt (entries (query u))),
        (''CONTENT_TYPE'', or_else (header req ''content-type'') ''''),
        (''CONTENT_LENGTH'', or_else (header req ''content-length'') ''0''),
        (''HTTP_USER_AGENT'', or_else (header req ''user-agent'') ''''),
        (''HTTP_AUTHORIZATION'', or_else (header req ''authorization'') ''''),
        (''REMOTE_ADDR'', or_else (remoteAddress req) ''''),
        (''REMOTE_USER'', ''''),
        (''SERVER_NAME'', or_else (host_part req 0) ''localhost''),
        (''SERVER_PORT'', or_else (host_part req 1) PORT_toString)]
       process_env"

text \<open>
  What \<^verbatim>\<open>spawn\<close> returns. Mostly it is a child process with its three streams: the spawn
  succeeded, or it failed in a way that the child reports later by its \<^verbatim>\<open>'error'\<close> event
  (the command is not found, permission is denied). Node knows two more results. When the
  process has no file descriptor left, the child it returns has no streams (its \<^verbatim>\<open>stdin\<close>,
  \<^verbatim>\<open>stdout\<close> and \<^verbatim>\<open>stderr\<close> are \<^verbatim>\<open>undefined\<close>), so that \<^verbatim>\<open>req.pipe(gitProcess.stdin)\<close>
  (line 69) throws a \<^verbatim>\<open>TypeError\<close>; on any other error of the operating system \<^verbatim>\<open>spawn\<close>
  itself throws.
\<close>

datatype child = Child_with_streams | Child_without_streams | No_child string

text \<open>
  The synchronous part of \<^verbatim>\<open>handleGitRequest\<close>, with the child that \<^verbatim>\<open>spawn\<close> returns as
  its first argument: the URL is parsed again, the backend is spawned with the
  environment, the request body is piped into it, and the listeners' variables are
  initialised.
\<close>

definition handleGitRequest_spawning ::
    "child \<Rightarrow> runtime \<Rightarrow> string \<Rightarrow> obj \<Rightarrow> request \<Rightarrow> conn \<Rightarrow> outcome" where
  "handleGitRequest_spawning gitProcess rt dirname process_env req c =
     (case new_URL rt (url req) of
        None \<Rightarrow> Inl (ERR_INVALID_URL (url req), c)
      | Some u \<Rightarrow>
          (let c1 = c\<lparr> effects := effects c @
                         [Spawn ''git'' [''http-backend''] (env rt dirname process_env req u)] \<rparr>
           in case gitProcess of
                No_child err \<Rightarrow> Inl (Spawn_error err, c1)
              | Child_without_streams \<Rightarrow> Inl (TypeError ''gitProcess.stdin is undefined'', c1)
              | Child_with_streams \<Rightarrow>
                  Inr (c1\<lparr> effects := effects c1 @ [PipeRequestBody],
                           responseHeaders := [],
                           headersParsed := False,
                           responseBuffer := [] \<rparr>)))"

text \<open>\<^verbatim>\<open>handleGitRequest\<close> when \<^verbatim>\<open>spawn\<close> returns a child with its streams.\<close>

definition handleGitRequest ::
    "runtime \<Rightarrow> string \<Rightarrow> obj \<Rightarrow> request \<Rightarrow> conn \<Rightarrow> outcome" where
  "handleGitRequest rt dirname process_env req c =
     handleGitRequest_spawning Child_with_streams rt dirname process_env req c"

subsection \<open>\<^verbatim>\<open>requestHandler\<close> (lines 128-150)\<close>

definition requestHandler_spawning ::
    "child \<Rightarrow> runtime \<Rightarrow> string \<Rightarrow> obj \<Rightarrow> request \<Rightarrow> conn \<Rightarrow> outcome" where
  "requestHandler_spawning gitProcess rt dirname process_env req c =
     (case new_URL rt (url req) of
        None \<Rightarrow> Inl (ERR_INVALID_URL (url req), c)
      | Some u \<Rightarrow>
          if startsWith (pathname u) ''/git/'' then
            (let gitPath = drop 5 (pathname u) in
             if includes_sub gitPath ''..'' \<or> includes_sub gitPath ''//''
             then do_calls [SetStatus (Num 400), End (Some ''Bad Request'')] c
             else handleGitRequest_spawning gitProcess rt dirname process_env req c)
          else
            do_calls [SetStatus (Num 404), SetHeader ''Content-Type'' ''text/plain'',
                      End (Some ''Not Found'')] c)"

text \<open>\<^verbatim>\<open>requestHandler\<close> when \<^verbatim>\<open>spawn\<close> returns a child with its streams.\<close>

definition requestHandler ::
    "runtime \<Rightarrow> string \<Rightarrow> obj \<Rightarrow> request \<Rightarrow> conn \<Rightarrow> outcome" where
  "requestHandler rt dirname process_env req c =
     requestHandler_spawning Child_with_streams rt dirname process_env req c"

subsection \<open>The listeners of \<^verbatim>\<open>handleGitRequest\<close> (lines 62-125)\<close>

text \<open>
  The four events the program listens to: \<^verbatim>\<open>'error'\<close> of the child process, \<^verbatim>\<open>'data'\<close> and
  \<^verbatim>\<open>'end'\<close> of its standard output, \<^verbatim>\<open>'data'\<close> of its standard error.
\<close>

datatype event =
    BackendError string
  | StdoutData bytes
  | StdoutEnd
  | StderrData bytes

definition CRLF :: string where
  "CRLF = [CHR 0x0D, CHR 0x0A]"

definition CRLFCRLF :: string where
  "CRLFCRLF = [CHR 0x0D, CHR 0x0A, CHR 0x0D, CHR 0x0A]"

text \<open>
  The body of \<^verbatim>\<open>headers.forEach\<close> (lines 88-99), for one line of the header section. The
  assignment to \<^verbatim>\<open>res.statusCode\<close> is a call that Node never refuses.
\<close>

definition processHeader :: "string \<Rightarrow> conn \<Rightarrow> conn" where
  "processHeader hd_line c =
     (case split hd_line '':'' of
        [] \<Rightarrow> c
      | key # valueParts \<Rightarrow>
          if key \<noteq> [] \<and> length valueParts > 0 then
            (let val = trim (join valueParts '':'') in
             if toLowerCase key = ''status'' then
               (let statusCode = (case at (split val '' '') 0 of None \<Rightarrow> NaN | Some t \<Rightarrow> parseInt t)
                in c\<lparr> calls := calls c @ [SetStatus statusCode] \<rparr>)
             else c\<lparr> responseHeaders := assign key val (responseHeaders c) \<rparr>)
          else c)"

text \<open>
  Lines 84-106, once the delimiter is found at \<open>headerEndIndex\<close>: the header section is
  decoded and split into lines, each line is processed, every entry of \<^verbatim>\<open>responseHeaders\<close>
  goes to \<^verbatim>\<open>res.setHeader\<close>, and \<^verbatim>\<open>headersParsed\<close> is set. When a \<^verbatim>\<open>setHeader\<close> throws, the
  entries after it are not set and \<^verbatim>\<open>headersParsed\<close> stays false.
\<close>

definition parseHeaders :: "runtime \<Rightarrow> bytes \<Rightarrow> conn \<Rightarrow> outcome" where
  "parseHeaders rt section c =
     (let headerSection = toString rt section;
          c1 = fold processHeader (split headerSection CRLF) c
      in case do_calls (map (\<lambda>(k, v). SetHeader k v) (entries (responseHeaders c1))) c1 of
           Inl x \<Rightarrow> Inl x
         | Inr c2 \<Rightarrow> Inr (c2\<lparr> headersParsed := True \<rparr>))"

definition stdout_data :: "runtime \<Rightarrow> bytes \<Rightarrow> conn \<Rightarrow> outcome" where
  "stdout_data rt chunk c =
     (if \<not> headersParsed c then
        (let c1 = c\<lparr> responseBuffer := responseBuffer c @ chunk \<rparr> in
         case indexOf (responseBuffer c1) CRLFCRLF of
           None \<Rightarrow> Inr c1
         | Some headerEndIndex \<Rightarrow>
             (let bodySection = drop (headerEndIndex + 4) (responseBuffer c1)
              in case parseHeaders rt (take headerEndIndex (responseBuffer c1)) c1 of
                   Inl x \<Rightarrow> Inl x
                 | Inr c2 \<Rightarrow> if length bodySection > 0 then call (Write bodySection) c2 else Inr c2))
      else call (Write chunk) c)"

definition stdout_end :: "conn \<Rightarrow> outcome" where
  "stdout_end c = call (End None) c"

definition backend_error :: "string \<Rightarrow> conn \<Rightarrow> outcome" where
  "backend_error err c =
     do_calls [SetStatus (Num 500), End (Some ''Internal Server Error'')]
       (c\<lparr> effects := effects c @ [ConsoleError ''Git backend error:'' err] \<rparr>)"

definition stderr_data :: "runtime \<Rightarrow> bytes \<Rightarrow> conn \<Rightarrow> outcome" where
  "stderr_data rt data c =
     Inr (c\<lparr> effects := effects c @ [ConsoleError ''Git backend stderr:'' (toString rt data)] \<rparr>)"

fun emit :: "runtime \<Rightarrow> event \<Rightarrow> conn \<Rightarrow> outcome" where
  "emit rt (BackendError err) c = backend_error err c"
| "emit rt (StdoutData chunk) c = stdout_data rt chunk c"
| "emit rt StdoutEnd c = stdout_end c"
| "emit rt (StderrData data) c = stderr_data rt data c"

text \<open>
  A request in flight: the events arrive one after the other, until a listener throws.
\<close>

fun run :: "runtime \<Rightarrow> event list \<Rightarrow> conn \<Rightarrow> outcome" where
  "run rt [] c = Inr c"
| "run rt (ev # evs) c = (case emit rt ev c of Inl x \<Rightarrow> Inl x | Inr c' \<Rightarrow> run rt evs c')"

text \<open>
  The state in which \<^verbatim>\<open>handleGitRequest\<close> leaves a new request, its listeners registered:
  nothing asked of the response yet, the effects \<open>es\<close> of the spawn behind it.
\<close>

definition listening :: "effect list \<Rightarrow> conn" where
  "listening es = fresh\<lparr> effects := es \<rparr>"

text \<open>The standard output of the backend as it arrives in chunks, up to its end.\<close>

definition stdout_events :: "bytes list \<Rightarrow> event list" where
  "stdout_events chunks = map StdoutData chunks @ [StdoutEnd]"

subsection \<open>What a backend does, and the server\<close>

text \<open>
  The events of one child process, as Node delivers them. A child that could not be
  spawned emits \<^verbatim>\<open>'error'\<close>, and its standard output ends with no data. A child that was
  spawned emits data on its two streams, in any order (\<open>Running\<close>: its output so far); then
  its standard output ends, and data may still come on the standard error (\<open>Ended\<close>).
  \<open>No_streams\<close> and \<open>Spawn_throws\<close> are the two results of \<^verbatim>\<open>spawn\<close> without streams: no
  event follows them.
\<close>

datatype backend_output = Stdout bytes | Stderr bytes

fun output_event :: "backend_output \<Rightarrow> event" where
  "output_event (Stdout chunk) = StdoutData chunk"
| "output_event (Stderr data) = StderrData data"

fun stdout_chunks :: "backend_output list \<Rightarrow> bytes list" where
  "stdout_chunks [] = []"
| "stdout_chunks (Stdout chunk # outs) = chunk # stdout_chunks outs"
| "stdout_chunks (Stderr data # outs) = stdout_chunks outs"

datatype backend =
    Spawn_fails string
  | Running "backend_output list"
  | Ended "backend_output list" "bytes list"
  | No_streams
  | Spawn_throws string

fun child_of :: "backend \<Rightarrow> child" where
  "child_of No_streams = Child_without_streams"
| "child_of (Spawn_throws err) = No_child err"
| "child_of b = Child_with_streams"

fun events_of :: "backend \<Rightarrow> event list" where
  "events_of (Spawn_fails err) = [BackendError err, StdoutEnd]"
| "events_of (Running outs) = map output_event outs"
| "events_of (Ended outs late) = map output_event outs @ [StdoutEnd] @ map StderrData late"
| "events_of No_streams = []"
| "events_of (Spawn_throws err) = []"

text \<open>
  One request from its arrival on: \<^verbatim>\<open>requestHandler\<close> runs on a new response and, when it
  has handed the request to a backend, the listeners run on the events of that backend.
\<close>

definition is_Pipe :: "effect \<Rightarrow> bool" where
  "is_Pipe e = (e = PipeRequestBody)"

definition serve :: "runtime \<Rightarrow> string \<Rightarrow> obj \<Rightarrow> request \<Rightarrow> backend \<Rightarrow> outcome" where
  "serve rt dirname process_env req b =
     (case requestHandler_spawning (child_of b) rt dirname process_env req fresh of
        Inl x \<Rightarrow> Inl x
      | Inr c \<Rightarrow> if list_ex is_Pipe (effects c) then run rt (events_of b) c else Inr c)"

text \<open>
  The server (\<^verbatim>\<open>http.createServer(requestHandler)\<close>, line 153) keeps no state between
  requests: each call of \<^verbatim>\<open>requestHandler\<close> has its own \<^verbatim>\<open>res\<close> and its own variables, so
  the order in which the events of different requests arrive matters to none of them, and
  the model serves them one after the other. It does so for as long as nothing is thrown:
  an exception that nothing catches ends the process, and the requests after it are not
  served. The result lists the requests served, the one that threw last.
\<close>

fun server :: "runtime \<Rightarrow> string \<Rightarrow> obj \<Rightarrow> (request \<times> backend) list
                \<Rightarrow> error \<times> conn list + conn list" where
  "server rt dirname process_env [] = Inr []"
| "server rt dirname process_env ((req, b) # later) =
     (case serve rt dirname process_env req b of
        Inl (e, c) \<Rightarrow> Inl (e, [c])
      | Inr c \<Rightarrow>
          (case server rt dirname process_env later of
             Inl (e, cs) \<Rightarrow> Inl (e, c # cs)
           | Inr cs \<Rightarrow> Inr (c # cs)))"

subsection \<open>Provisioning at start-up (lines 14-31)\<close>

text \<open>
  The file system is a table from paths to directories. Of a directory the model keeps what
  the script can change: whether \<^verbatim>\<open>git init --bare\<close> has run in it, and its git
  configuration. The script is the chain of five commands joined by \<^verbatim>\<open>&&\<close>. The path
  stands in it between double quotes, where the shell still expands \<^verbatim>\<open>$\<close>, the backquote
  and the backslash: \<open>shell_word\<close> is the word the shell makes of it, the path itself when it
  has none of these. (A path with a double quote in it makes another script; the model
  has no such path.) \<open>refused\<close> says which commands the machine refuses (disk full,
  permission denied), and a command that cannot work (\<^verbatim>\<open>cd\<close> to a missing directory, git
  in a directory that is none) fails too. A failing command ends the chain, keeps what the
  earlier ones did and makes \<^verbatim>\<open>execSync\<close> throw.
\<close>

record dir =
  initialized :: bool
  config :: "(string \<times> string) list"

record host =
  files :: "string \<Rightarrow> dir option"
  console :: "effect list"

fun sh :: "(command \<Rightarrow> bool) \<Rightarrow> command list \<Rightarrow> string \<Rightarrow> (string \<Rightarrow> dir option)
            \<Rightarrow> (string \<Rightarrow> dir option) \<times> bool" where
  "sh refused [] cwd fs = (fs, True)"
| "sh refused (cmd # cmds) cwd fs =
     (if refused cmd then (fs, False)
      else case cmd of
        Mkdir_p p \<Rightarrow>
          sh refused cmds cwd
            (if fs p = None then fs(p \<mapsto> \<lparr> initialized = False, config = [] \<rparr>) else fs)
      | Cd p \<Rightarrow> (if fs p = None then (fs, False) else sh refused cmds p fs)
      | Git_init_bare \<Rightarrow>
          (case fs cwd of
             None \<Rightarrow> (fs, False)
           | Some d \<Rightarrow> sh refused cmds cwd (fs(cwd \<mapsto> d\<lparr> initialized := True \<rparr>)))
      | Git_config k v \<Rightarrow>
          (case fs cwd of
             None \<Rightarrow> (fs, False)
           | Some d \<Rightarrow>
               if initialized d
               then sh refused cmds cwd (fs(cwd \<mapsto> d\<lparr> config := AList.update k v (config d) \<rparr>))
               else (fs, False)))"

definition script :: "runtime \<Rightarrow> string \<Rightarrow> command list" where
  "script rt repoPath =
     [Mkdir_p (shell_word rt repoPath), Cd (shell_word rt repoPath), Git_init_bare,
      Git_config ''http.receivepack'' ''true'', Git_config ''http.uploadpack'' ''true'']"

definition quoted :: "string \<Rightarrow> string" where
  "quoted s = [CHR 0x22] @ s @ [CHR 0x22]"

text \<open>
  The body of the \<^verbatim>\<open>forEach\<close> for one repository name. When \<^verbatim>\<open>execSync\<close> throws, the
  exception leaves the module (\<open>Inl\<close>), with the machine as the script left it.
\<close>

definition repoPath :: "runtime \<Rightarrow> string \<Rightarrow> string \<Rightarrow> string" where
  "repoPath rt dirname repoName = path_join rt (GIT_PROJECT_ROOT rt dirname) (repoName @ ''.git'')"

definition provision :: "runtime \<Rightarrow> string \<Rightarrow> (command \<Rightarrow> bool) \<Rightarrow> string \<Rightarrow> string \<Rightarrow> host
                          \<Rightarrow> error \<times> host + host" where
  "provision rt dirname refused cwd repoName h =
     (let p = repoPath rt dirname repoName;
          h1 = h\<lparr> console := console h @ [ExistsSync p] \<rparr>
      in if files h1 p \<noteq> None
         then Inr (h1\<lparr> console := console h1 @
                        [ConsoleLog (quoted repoName @ '' git bare repository already exists'')] \<rparr>)
         else
           (let h2 = h1\<lparr> console := console h1 @
                          [ConsoleLog (''Create '' @ quoted repoName @ '' git bare repository''),
                           ExecSync (script rt p)] \<rparr>;
                (fs', ok) = sh refused (script rt p) cwd (files h2)
            in if ok then Inr (h2\<lparr> files := fs' \<rparr>)
               else Inl (ExecSync_failed p, h2\<lparr> files := fs' \<rparr>)))"

fun forEach :: "('a \<Rightarrow> 's \<Rightarrow> error \<times> 's + 's) \<Rightarrow> 'a list \<Rightarrow> 's \<Rightarrow> error \<times> 's + 's" where
  "forEach f [] s = Inr s"
| "forEach f (x # xs) s = (case f x s of Inl e \<Rightarrow> Inl e | Inr s' \<Rightarrow> forEach f xs s')"

definition provisioning :: "runtime \<Rightarrow> string \<Rightarrow> (command \<Rightarrow> bool) \<Rightarrow> string \<Rightarrow> host
                             \<Rightarrow> error \<times> host + host" where
  "provisioning rt dirname refused cwd h =
     forEach (provision rt dirname refused cwd) [''repos1'', ''repos2'', ''repos3''] h"

definition is_creation :: "effect \<Rightarrow> bool" where
  "is_creation e = (case e of ExecSync cmds \<Rightarrow> True | _ \<Rightarrow> False)"

subsection \<open>The words of the specification\<close>

text \<open>
  The definitions of this part do not come from the program. They say in the words of the
  specification what the program is compared with. First the delimiter: \<open>sub\<close> occurs in
  \<open>s\<close> at index \<open>i\<close>, and it does so there for the first time.
\<close>

definition occurs_at :: "'a list \<Rightarrow> 'a list \<Rightarrow> nat \<Rightarrow> bool" where
  "occurs_at s sub i = (i + length sub \<le> length s \<and> take (length sub) (drop i s) = sub)"

definition first_occurrence :: "'a list \<Rightarrow> 'a list \<Rightarrow> nat \<Rightarrow> bool" where
  "first_occurrence s sub i = (occurs_at s sub i \<and> (\<forall>j < i. \<not> occurs_at s sub j))"

text \<open>
  The order the specification asks of the calls on a response: first the calls that set
  its head, then the calls that send its body, and no head call after a body call.
\<close>

fun head_then_body :: "res_call list \<Rightarrow> bool" where
  "head_then_body [] = True"
| "head_then_body (c # cs) =
     (if is_head_call c then head_then_body cs else list_all is_body_call cs)"

text \<open>
  A line of the header section: its name is what stands before the first colon, its value
  all that follows that colon, trimmed. A header line has a colon and a name that is not
  empty; it is a status line when its name is \<^verbatim>\<open>Status\<close> in any case of the letters and a
  field line otherwise. The status of a status line is \<^verbatim>\<open>parseInt\<close> of its value up to the
  first space.
\<close>

definition header_name :: "string \<Rightarrow> string" where
  "header_name line = takeWhile (\<lambda>c. c \<noteq> CHR '':'') line"

definition header_value :: "string \<Rightarrow> string" where
  "header_value line = trim (drop 1 (dropWhile (\<lambda>c. c \<noteq> CHR '':'') line))"

definition is_header_line :: "string \<Rightarrow> bool" where
  "is_header_line line = (CHR '':'' \<in> set line \<and> header_name line \<noteq> [])"

definition is_status_line :: "string \<Rightarrow> bool" where
  "is_status_line line = (is_header_line line \<and> toLowerCase (header_name line) = ''status'')"

definition is_field_line :: "string \<Rightarrow> bool" where
  "is_field_line line = (is_header_line line \<and> toLowerCase (header_name line) \<noteq> ''status'')"

definition status_value :: "string \<Rightarrow> jsnum" where
  "status_value line = parseInt (takeWhile (\<lambda>c. c \<noteq> CHR '' '') (header_value line))"

text \<open>
  The translation of the lines of a header section: one assignment of the status code for
  each status line, in order, and then the headers. \<open>fields\<close> lists the name and the value
  of every field line; \<open>forwarded\<close> is the table the program makes of them, as
  \<^verbatim>\<open>Object.entries\<close> reads it.
\<close>

definition status_calls :: "string list \<Rightarrow> res_call list" where
  "status_calls ls = map (\<lambda>line. SetStatus (status_value line)) (filter is_status_line ls)"

definition fields :: "string list \<Rightarrow> (string \<times> string) list" where
  "fields ls = map (\<lambda>line. (header_name line, header_value line)) (filter is_field_line ls)"

definition forwarded :: "string list \<Rightarrow> (string \<times> string) list" where
  "forwarded ls = entries (fold (\<lambda>(k, v). assign k v) (fields ls) [])"

definition header_calls :: "(string \<times> string) list \<Rightarrow> res_call list" where
  "header_calls hs = map (\<lambda>(k, v). SetHeader k v) hs"

definition translate :: "string list \<Rightarrow> res_call list" where
  "translate ls = status_calls ls @ header_calls (forwarded ls)"

text \<open>
  Node accepts a header when its name is a token and its value has no forbidden character;
  \<open>first_refusal\<close> is the exception for the first header of a list that it does not accept.
  \<open>header_lines\<close> are the lines of the header section of a stream whose delimiter is at
  index \<open>i\<close>; \<open>stdout_of\<close> is the data that a sequence of events carries on the standard
  output.
\<close>

definition accepted :: "string \<times> string \<Rightarrow> bool" where
  "accepted h = (header_refusal (fst h) (snd h) = None)"

definition first_refusal :: "(string \<times> string) list \<Rightarrow> error option" where
  "first_refusal hs =
     (case dropWhile accepted hs of [] \<Rightarrow> None | h # rest \<Rightarrow> header_refusal (fst h) (snd h))"

definition header_lines :: "runtime \<Rightarrow> bytes \<Rightarrow> nat \<Rightarrow> string list" where
  "header_lines rt s i = split (toString rt (take i s)) CRLF"

fun stdout_of :: "event list \<Rightarrow> bytes" where
  "stdout_of [] = []"
| "stdout_of (StdoutData chunk # evs) = chunk @ stdout_of evs"
| "stdout_of (ev # evs) = stdout_of evs"

subsection \<open>A runtime for the examples\<close>

text \<open>
  The examples run on this runtime. Its URL parser is \<open>whatwg_URL\<close>; of the hosts it accepts
  those made of letters, digits, hyphens and dots that begin with a letter and do not end
  in a digit (for which the host parser has nothing to do but to lower the case), and it
  rejects the URLs of the scheme \<^verbatim>\<open>file\<close> and of the schemes that are not special, which
  Node would parse: no example has such a host or scheme. The header sections of the
  examples are ASCII, their paths have nothing the shell expands, and \<^verbatim>\<open>path.join\<close> is
  applied to two segments that need no normalisation.
\<close>

definition example_host :: "string \<Rightarrow> bool" where
  "example_host h =
     (h \<noteq> [] \<and> is_alpha (hd h) \<and> \<not> is_decimal (last h)
      \<and> list_all (\<lambda>c. is_alpha c \<or> is_decimal c \<or> c = CHR ''-'' \<or> c = CHR ''.'') h)"

definition example_rt :: runtime where
  "example_rt =
     \<lparr> new_URL = whatwg_URL example_host (\<lambda>s. None),
       toString = (\<lambda>b. b),
       URLSearchParams_toString = form_serialize,
       path_join = (\<lambda>a b. a @ ''/'' @ b),
       shell_word = (\<lambda>p. p) \<rparr>"

subsection \<open>Inputs of the examples\<close>

definition get :: "string \<Rightarrow> request" where
  "get target =
     \<lparr> url = target, req_method = ''GET'', headers = [(''host'', ''localhost:3334'')],
       remoteAddress = Some ''127.0.0.1'' \<rparr>"

definition post_to_info_refs :: request where
  "post_to_info_refs =
     \<lparr> url = ''/git/repos1.git/info/refs?service=git-upload-pack'', req_method = ''POST'',
       headers = [(''host'', ''localhost:3334''), (''content-type'', ''text/plain'')],
       remoteAddress = Some ''127.0.0.1'' \<rparr>"

definition info_refs_URL :: URL where
  "info_refs_URL =
     \<lparr> pathname = ''/git/repos1.git/info/refs'',
       searchParams = [(''service'', ''git-upload-pack'')] \<rparr>"

definition provisioned_once :: host where
  "provisioned_once =
     \<lparr> files = [''/srv/git-server-volume/repos1.git'' \<mapsto>
                  \<lparr> initialized = True,
                    config = [(''http.receivepack'', ''true''), (''http.uploadpack'', ''true'')] \<rparr>],
       console = [] \<rparr>"

text \<open>
  A backend output in three chunks; the delimiter is cut between the first and the second.
  Then the same with a line on the standard error in between.
\<close>

definition example_chunks :: "bytes list" where
  "example_chunks =
     [''Status: 404 Not Found'' @ CRLF @ ''Content-Type: text/plain'' @ [CHR 0x0D, CHR 0x0A, CHR 0x0D],
      [CHR 0x0A] @ ''hello'',
      '' world'']"

definition example_outputs :: "backend_output list" where
  "example_outputs =
     [Stdout (''Status: 404 Not Found'' @ CRLF @ ''Content-Type: text/plain'' @ [CHR 0x0D, CHR 0x0A, CHR 0x0D]),
      Stderr ''warning'',
      Stdout ([CHR 0x0A] @ ''hello''),
      Stdout '' world'']"

text \<open>
  What is seen of an outcome from outside: the state at the end, or at the throw, and the
  pair of the exception and the calls made. \<open>with_effects\<close> replaces the effects recorded
  in an outcome.
\<close>

definition final :: "outcome \<Rightarrow> conn" where
  "final r = (case r of Inl (e, c) \<Rightarrow> c | Inr c \<Rightarrow> c)"

definition observe :: "outcome \<Rightarrow> error option \<times> res_call list" where
  "observe r = (thrown r, res_calls r)"

definition with_effects :: "effect list \<Rightarrow> outcome \<Rightarrow> outcome" where
  "with_effects es r =
     (case r of Inl (e, c) \<Rightarrow> Inl (e, c\<lparr> effects := es \<rparr>) | Inr c \<Rightarrow> Inr (c\<lparr> effects := es \<rparr>))"

text \<open>What the listener of the standard error writes on the console for the output so far.\<close>

fun stderr_log :: "runtime \<Rightarrow> backend_output list \<Rightarrow> effect list" where
  "stderr_log rt [] = []"
| "stderr_log rt (Stdout chunk # outs) = stderr_log rt outs"
| "stderr_log rt (Stderr data # outs)
     = ConsoleError ''Git backend stderr:'' (toString rt data) # stderr_log rt outs"

section \<open>Properties\<close>

subsection \<open>Evaluation\<close>

lemmas url_defs = example_rt_def whatwg_URL_def strip_input_def scheme_of_def relative_state_def
  authority_state_def make_URL_def end_segment_def single_dot_def double_dot_def
  is_slash_def percent_encode_def path_set_def query_set_def special_query_set_def
  c0_control_set_def form_parse_def form_pair_def form_decode_def form_serialize_def
  form_encode_def form_byte_def is_alpha_def is_decimal_def code_def toLowerCase_def
  lower_char_def split_def startsWith_def delimiter_def example_host_def Let_def
  char_of_eq_iff

lemmas request_defs = url_defs get_def requestHandler_def requestHandler_spawning_def
  handleGitRequest_spawning_def env_def defineProperty_def query_def entries_def
  array_index_def or_else_def header_def host_part_def GIT_PROJECT_ROOT_def PORT_toString_def
  listening_def fresh_def serve_def is_Pipe_def

subsection \<open>The first occurrence of the delimiter\<close>

lemma take_eq_length: "take (length sub) s = sub \<Longrightarrow> length sub \<le> length s"
proof -
  assume "take (length sub) s = sub"
  then have "length (take (length sub) s) = length sub" by simp
  then show ?thesis by simp
qed

lemma startsWith_occurs: "startsWith s sub = occurs_at s sub 0"
  by (auto simp: startsWith_def occurs_at_def dest: take_eq_length)

lemma occurs_at_Suc: "occurs_at (c # cs) sub (Suc j) = occurs_at cs sub j"
  by (simp add: occurs_at_def)

lemma indexOf_first: "indexOf s sub = Some i \<Longrightarrow> first_occurrence s sub i"
proof (induction s arbitrary: i)
  case Nil
  then show ?case by (auto simp: first_occurrence_def occurs_at_def split: if_splits)
next
  case (Cons c cs)
  show ?case
  proof (cases "startsWith (c # cs) sub")
    case True
    with Cons.prems show ?thesis by (simp add: first_occurrence_def startsWith_occurs)
  next
    case False
    with Cons.prems obtain j where j: "indexOf cs sub = Some j" and i: "i = Suc j" by auto
    from Cons.IH [OF j] have f: "first_occurrence cs sub j" .
    have "\<not> occurs_at (c # cs) sub k" if "k < Suc j" for k
    proof (cases k)
      case 0
      with False show ?thesis by (simp add: startsWith_occurs)
    next
      case (Suc k')
      with that f show ?thesis by (simp add: first_occurrence_def occurs_at_Suc)
    qed
    with f i show ?thesis by (simp add: first_occurrence_def occurs_at_Suc)
  qed
qed

lemma first_indexOf: "first_occurrence s sub i \<Longrightarrow> indexOf s sub = Some i"
proof (induction s arbitrary: i)
  case Nil
  then show ?case by (auto simp: first_occurrence_def occurs_at_def)
next
  case (Cons c cs)
  show ?case
  proof (cases "startsWith (c # cs) sub")
    case True
    then have "occurs_at (c # cs) sub 0" by (simp add: startsWith_occurs)
    with Cons.prems have "i = 0" by (auto simp: first_occurrence_def)
    with True show ?thesis by simp
  next
    case False
    with Cons.prems obtain j where i: "i = Suc j"
      by (cases i) (auto simp: first_occurrence_def startsWith_occurs)
    with Cons.prems have "first_occurrence cs sub j"
      by (auto simp: first_occurrence_def occurs_at_Suc)
    from Cons.IH [OF this] False i show ?thesis by simp
  qed
qed

lemma indexOf_bound: "indexOf s sub = Some i \<Longrightarrow> i + length sub \<le> length s"
  using indexOf_first [of s sub i] by (simp add: first_occurrence_def occurs_at_def)

lemma occurs_at_append: "occurs_at s sub i \<Longrightarrow> occurs_at (s @ t) sub i"
  by (auto simp: occurs_at_def)

lemma occurs_at_append_iff:
  "j + length sub \<le> length s \<Longrightarrow> occurs_at (s @ t) sub j = occurs_at s sub j"
  by (auto simp: occurs_at_def)

lemma indexOf_append: "indexOf s sub = Some i \<Longrightarrow> indexOf (s @ t) sub = Some i"
proof (rule first_indexOf)
  assume a: "indexOf s sub = Some i"
  then have f: "first_occurrence s sub i" by (rule indexOf_first)
  have "\<not> occurs_at (s @ t) sub j" if "j < i" for j
  proof -
    from f have "i + length sub \<le> length s" by (simp add: first_occurrence_def occurs_at_def)
    with that have "j + length sub \<le> length s" by simp
    with f that show ?thesis by (simp add: occurs_at_append_iff first_occurrence_def)
  qed
  with f show "first_occurrence (s @ t) sub i"
    by (simp add: first_occurrence_def occurs_at_append)
qed

lemma indexOf_None_includes: "(indexOf s sub = None) = (\<not> includes_sub s sub)"
  by (induction s) auto
subsection \<open>Calls and what Node makes of them\<close>

lemma call_accepted:
  "refusal rc (calls c) = None \<Longrightarrow> call rc c = Inr (c\<lparr> calls := calls c @ [rc] \<rparr>)"
  by (simp add: call_def)

lemma call_refused: "refusal rc (calls c) = Some e \<Longrightarrow> call rc c = Inl (e, c)"
  by (simp add: call_def)

lemma do_calls_append:
  "do_calls (xs @ ys) c = (case do_calls xs c of Inl x \<Rightarrow> Inl x | Inr c' \<Rightarrow> do_calls ys c')"
  by (induction xs arbitrary: c) (simp_all split: sum.split)

lemma head_sent_append: "head_sent (cs @ ds) = (head_sent cs \<or> head_sent ds)"
  by (simp add: head_sent_def list_ex_iff) blast

lemma response_ended_append: "response_ended (cs @ ds) = (response_ended cs \<or> response_ended ds)"
  by (simp add: response_ended_def list_ex_iff) blast

lemma head_not_sent: "list_all is_head_call hs \<Longrightarrow> \<not> head_sent hs"
  by (simp add: head_sent_def list_ex_iff list_all_iff is_body_call_def)

lemma head_not_ended: "list_all is_head_call hs \<Longrightarrow> \<not> response_ended hs"
  by (induction hs) (auto simp: response_ended_def elim: is_End.elims)

lemma is_End_body: "is_End x \<Longrightarrow> is_body_call x"
  by (cases x) (simp_all add: is_body_call_def)

lemma ended_sent: "response_ended cs \<Longrightarrow> head_sent cs"
  by (auto simp: response_ended_def head_sent_def list_ex_iff intro: is_End_body)

lemma do_status_calls:
  "list_all is_SetStatus xs \<Longrightarrow> do_calls xs c = Inr (c\<lparr> calls := calls c @ xs \<rparr>)"
proof (induction xs arbitrary: c)
  case Nil
  show ?case by simp
next
  case (Cons x xs)
  from Cons.prems obtain n where x: "x = SetStatus n" by (cases x) auto
  from Cons.prems have "do_calls xs (c\<lparr> calls := calls c @ [x] \<rparr>)
      = Inr (c\<lparr> calls := calls c @ [x] \<rparr>\<lparr> calls := calls (c\<lparr> calls := calls c @ [x] \<rparr>) @ xs \<rparr>)"
    by (intro Cons.IH) simp
  then show ?case by (simp add: x call_def)
qed

lemma header_calls_head: "list_all is_head_call (header_calls hs)"
  by (simp add: header_calls_def list_all_iff split_beta)

lemma status_calls_head: "list_all is_head_call (status_calls ls)"
  by (simp add: status_calls_def list_all_iff)

lemma status_calls_status: "list_all is_SetStatus (status_calls ls)"
  by (simp add: status_calls_def list_all_iff)

lemma translate_head: "list_all is_head_call (translate ls)"
  by (simp add: translate_def header_calls_head status_calls_head)

lemma do_header_calls:
  "\<not> head_sent (calls c) \<Longrightarrow>
   do_calls (header_calls hs) c
     = (case find (\<lambda>h. \<not> accepted h) hs of
          None \<Rightarrow> Inr (c\<lparr> calls := calls c @ header_calls hs \<rparr>)
        | Some h \<Rightarrow> Inl (the (header_refusal (fst h) (snd h)),
                         c\<lparr> calls := calls c @ header_calls (takeWhile accepted hs) \<rparr>))"
proof (induction hs arbitrary: c)
  case Nil
  show ?case by (simp add: header_calls_def)
next
  case (Cons h hs)
  obtain k v where h: "h = (k, v)" by (cases h)
  show ?case
  proof (cases "accepted h")
    case False
    then obtain e where "header_refusal k v = Some e" by (auto simp: accepted_def h)
    with False Cons.prems show ?thesis by (simp add: header_calls_def h call_def)
  next
    case True
    let ?c1 = "c\<lparr> calls := calls c @ [SetHeader k v] \<rparr>"
    from True Cons.prems have c: "call (SetHeader k v) c = Inr ?c1"
      by (simp add: call_def accepted_def h)
    from Cons.prems have "\<not> head_sent (calls ?c1)"
      by (simp add: head_sent_append) (simp add: head_sent_def is_body_call_def)
    from Cons.IH [OF this] c True show ?thesis
      by (simp add: header_calls_def h split: option.split)
  qed
qed

lemma do_calls_same_calls:
  "calls c = calls c' \<Longrightarrow> observe (do_calls xs c) = observe (do_calls xs c')"
proof (induction xs arbitrary: c c')
  case Nil
  then show ?case by (simp add: observe_def thrown_def res_calls_def)
next
  case (Cons x xs)
  show ?case
  proof (cases "refusal x (calls c)")
    case (Some e)
    with Cons.prems show ?thesis by (simp add: call_def observe_def thrown_def res_calls_def)
  next
    case None
    have "observe (do_calls xs (c\<lparr> calls := calls c @ [x] \<rparr>))
        = observe (do_calls xs (c'\<lparr> calls := calls c' @ [x] \<rparr>))"
      using Cons.prems by (intro Cons.IH) simp
    with None Cons.prems show ?thesis by (simp add: call_def)
  qed
qed

lemma writes_after_head:
  "head_sent (calls c) \<Longrightarrow> \<not> response_ended (calls c) \<Longrightarrow>
   do_calls (map Write ws) c = Inr (c\<lparr> calls := calls c @ map Write ws \<rparr>)"
proof (induction ws arbitrary: c)
  case Nil
  show ?case by simp
next
  case (Cons w ws)
  let ?c1 = "c\<lparr> calls := calls c @ [Write w] \<rparr>"
  from Cons.prems have c: "call (Write w) c = Inr ?c1" by (simp add: call_def head_refusal_def)
  from Cons.prems have "head_sent (calls ?c1)" "\<not> response_ended (calls ?c1)"
    by (simp_all add: head_sent_append response_ended_append) (simp add: response_ended_def)
  from Cons.IH [OF this] c show ?case by simp
qed

lemma end_after_head:
  "head_sent (calls c) \<Longrightarrow> call (End None) c = Inr (c\<lparr> calls := calls c @ [End None] \<rparr>)"
  by (simp add: call_def head_refusal_def)

subsection \<open>The lines of the header section\<close>

lemma startsWith_single: "startsWith (c # cs) [c0] = (c = c0)"
  by (simp add: startsWith_def)

lemma split_from_single:
  "split_from [c0] piece s =
     (if c0 \<in> set s
      then (piece @ takeWhile (\<lambda>c. c \<noteq> c0) s) # split_from [c0] [] (drop 1 (dropWhile (\<lambda>c. c \<noteq> c0) s))
      else [piece @ s])"
proof (induction s arbitrary: piece)
  case Nil
  show ?case by simp
next
  case (Cons c cs)
  show ?case
  proof (cases "c = c0")
    case True
    then show ?thesis by (simp add: startsWith_single)
  next
    case False
    then show ?thesis using Cons.IH [of "piece @ [c]"] by (simp add: startsWith_single)
  qed
qed

lemma split_from_not_empty: "split_from sep piece s \<noteq> []"
  by (induction sep piece s rule: split_from.induct) auto

lemma join_Cons: "ps \<noteq> [] \<Longrightarrow> join (p # ps) sep = p @ sep @ join ps sep"
  by (cases ps) simp_all

lemma join_split_from: "join (split_from [c0] piece s) [c0] = piece @ s"
proof (induction s arbitrary: piece)
  case Nil
  show ?case by simp
next
  case (Cons c cs)
  show ?case
  proof (cases "c = c0")
    case True
    then show ?thesis
      using Cons.IH [of "[]"] by (simp add: startsWith_single join_Cons split_from_not_empty)
  next
    case False
    then show ?thesis using Cons.IH [of "piece @ [c]"] by (simp add: startsWith_single)
  qed
qed

lemma split_colon:
  assumes "CHR '':'' \<in> set line"
  shows "\<exists>valueParts. split line '':'' = takeWhile (\<lambda>c. c \<noteq> CHR '':'') line # valueParts
           \<and> valueParts \<noteq> []
           \<and> join valueParts '':'' = drop 1 (dropWhile (\<lambda>c. c \<noteq> CHR '':'') line)"
proof -
  let ?rest = "drop 1 (dropWhile (\<lambda>c. c \<noteq> CHR '':'') line)"
  have "split line '':'' = takeWhile (\<lambda>c. c \<noteq> CHR '':'') line # split_from '':'' [] ?rest"
    using assms split_from_single [of "CHR '':''" "[]" line] by (simp add: split_def)
  moreover have "split_from '':'' [] ?rest \<noteq> []" by (rule split_from_not_empty)
  moreover have "join (split_from '':'' [] ?rest) '':'' = ?rest"
    using join_split_from [of "CHR '':''" "[]" ?rest] by simp
  ultimately show ?thesis by blast
qed

lemma split_no_colon: "CHR '':'' \<notin> set line \<Longrightarrow> split line '':'' = [line]"
  using split_from_single [of "CHR '':''" "[]" line] by (simp add: split_def)

lemma first_token: "at (split val '' '') 0 = Some (takeWhile (\<lambda>c. c \<noteq> CHR '' '') val)"
proof (cases "CHR '' '' \<in> set val")
  case True
  then show ?thesis using split_from_single [of "CHR '' ''" "[]" val] by (simp add: split_def)
next
  case False
  then have t: "takeWhile (\<lambda>c. c \<noteq> CHR '' '') val = val"
    by (auto simp: takeWhile_eq_all_conv)
  from False have "split val '' '' = [val]"
    using split_from_single [of "CHR '' ''" "[]" val] by (simp add: split_def)
  then show ?thesis by (simp add: t)
qed
lemma processHeader_line:
  "processHeader line c =
     (if is_status_line line then c\<lparr> calls := calls c @ [SetStatus (status_value line)] \<rparr>
      else if is_field_line line
      then c\<lparr> responseHeaders := assign (header_name line) (header_value line) (responseHeaders c) \<rparr>
      else c)"
proof (cases "CHR '':'' \<in> set line")
  case False
  then show ?thesis
    by (simp add: processHeader_def split_no_colon is_status_line_def is_field_line_def
          is_header_line_def)
next
  case True
  from split_colon [OF True] obtain valueParts where
    s: "split line '':'' = header_name line # valueParts" "valueParts \<noteq> []"
    "join valueParts '':'' = drop 1 (dropWhile (\<lambda>c. c \<noteq> CHR '':'') line)"
    by (auto simp: header_name_def)
  show ?thesis
    using True s
    by (simp add: processHeader_def Let_def first_token header_value_def status_value_def
          is_status_line_def is_field_line_def is_header_line_def)
qed

lemma fold_processHeader:
  "fold processHeader ls c
     = c\<lparr> calls := calls c @ status_calls ls,
          responseHeaders := fold (\<lambda>(k, v). assign k v) (fields ls) (responseHeaders c) \<rparr>"
proof (induction ls arbitrary: c)
  case Nil
  show ?case by (simp add: status_calls_def fields_def)
next
  case (Cons l ls)
  have x: "\<not> (is_status_line l \<and> is_field_line l)"
    by (simp add: is_status_line_def is_field_line_def)
  have "fold processHeader (l # ls) c
      = (processHeader l c)\<lparr> calls := calls (processHeader l c) @ status_calls ls,
          responseHeaders := fold (\<lambda>(k, v). assign k v) (fields ls)
                               (responseHeaders (processHeader l c)) \<rparr>"
    by (simp add: Cons.IH)
  also have "\<dots> = c\<lparr> calls := calls c @ status_calls (l # ls),
          responseHeaders := fold (\<lambda>(k, v). assign k v) (fields (l # ls)) (responseHeaders c) \<rparr>"
    using x by (auto simp: processHeader_line status_calls_def fields_def)
  finally show ?case .
qed









lemma parseHeaders_translate:
  assumes "responseHeaders c = []" and "\<not> head_sent (calls c)"
  shows "parseHeaders rt sec c
     = (case find (\<lambda>h. \<not> accepted h) (forwarded (split (toString rt sec) CRLF)) of
          None \<Rightarrow>
            Inr (c\<lparr> calls := calls c @ translate (split (toString rt sec) CRLF),
                    responseHeaders := fold (\<lambda>(k, v). assign k v)
                                         (fields (split (toString rt sec) CRLF)) [],
                    headersParsed := True \<rparr>)
        | Some h \<Rightarrow>
            Inl (the (header_refusal (fst h) (snd h)),
                 c\<lparr> calls := calls c @ status_calls (split (toString rt sec) CRLF)
                              @ header_calls (takeWhile accepted
                                  (forwarded (split (toString rt sec) CRLF))),
                    responseHeaders := fold (\<lambda>(k, v). assign k v)
                                         (fields (split (toString rt sec) CRLF)) [] \<rparr>))"
proof -
  let ?ls = "split (toString rt sec) CRLF"
  let ?c1 = "fold processHeader ?ls c"
  have c1: "?c1 = c\<lparr> calls := calls c @ status_calls ?ls,
                     responseHeaders := fold (\<lambda>(k, v). assign k v) (fields ?ls) [] \<rparr>"
    by (simp add: fold_processHeader assms(1))
  have e: "entries (responseHeaders ?c1) = forwarded ?ls"
    by (simp add: c1 forwarded_def)
  have "\<not> head_sent (calls ?c1)"
    using assms(2) head_not_sent [OF status_calls_head, of ?ls]
    by (simp add: c1 head_sent_append)
  from do_header_calls [OF this, of "forwarded ?ls"]
  have "do_calls (map (\<lambda>(k, v). SetHeader k v) (entries (responseHeaders ?c1))) ?c1
      = (case find (\<lambda>h. \<not> accepted h) (forwarded ?ls) of
           None \<Rightarrow> Inr (?c1\<lparr> calls := calls ?c1 @ header_calls (forwarded ?ls) \<rparr>)
         | Some h \<Rightarrow> Inl (the (header_refusal (fst h) (snd h)),
                          ?c1\<lparr> calls := calls ?c1 @ header_calls (takeWhile accepted (forwarded ?ls)) \<rparr>))"
    by (simp add: e header_calls_def)
  then show ?thesis
    by (simp add: parseHeaders_def Let_def c1 translate_def split: option.split)
qed

subsection \<open>The listeners over a stream of chunks\<close>

lemma run_append:
  "run rt (xs @ ys) c = (case run rt xs c of Inl x \<Rightarrow> Inl x | Inr c' \<Rightarrow> run rt ys c')"
  by (induction xs arbitrary: c) (simp_all split: sum.split)

lemma listening_simps:
  "calls (listening es) = []" "headersParsed (listening es) = False"
  "responseBuffer (listening es) = []" "responseHeaders (listening es) = []"
  "effects (listening es) = es"
  by (simp_all add: listening_def fresh_def)

lemma observe_Inl: "observe (Inl (e, c)) = (Some e, calls c)"
  by (simp add: observe_def thrown_def res_calls_def)

lemma observe_Inr: "observe (Inr c) = (None, calls c)"
  by (simp add: observe_def thrown_def res_calls_def)

lemma do_calls_snoc:
  "do_calls (xs @ [rc]) c = (case do_calls xs c of Inl x \<Rightarrow> Inl x | Inr c' \<Rightarrow> call rc c')"
  by (induction xs arbitrary: c) (simp_all split: sum.split)

lemma observe_then_call:
  assumes "observe r = observe (do_calls xs c0)"
  shows "observe (case r of Inl x \<Rightarrow> Inl x | Inr c' \<Rightarrow> call rc c') = observe (do_calls (xs @ [rc]) c0)"
proof (cases r)
  case (Inl x)
  obtain e c where x: "x = (e, c)" by (cases x)
  from assms Inl x obtain c1 where "do_calls xs c0 = Inl (e, c1)" "calls c1 = calls c"
    by (cases "do_calls xs c0") (auto simp: observe_def thrown_def res_calls_def)
  with Inl x show ?thesis by (simp add: do_calls_snoc observe_Inl)
next
  case (Inr c)
  from assms Inr obtain c1 where d: "do_calls xs c0 = Inr c1" "calls c1 = calls c"
    by (cases "do_calls xs c0") (auto simp: observe_def thrown_def res_calls_def)
  from d(2) have "observe (call rc c) = observe (call rc c1)"
    by (simp add: call_def observe_Inl observe_Inr split: option.split)
  with Inr d show ?thesis by (simp add: do_calls_snoc)
qed

lemma run_stderr:
  "run rt (map StderrData late) c
     = Inr (c\<lparr> effects := effects c @ map (\<lambda>d. ConsoleError ''Git backend stderr:'' (toString rt d)) late \<rparr>)"
  by (induction late arbitrary: c) (simp_all add: stderr_data_def)

lemma run_parsed:
  "headersParsed c \<Longrightarrow> calls c = calls c0 \<Longrightarrow>
   observe (run rt (map output_event outs) c) = observe (do_calls (map Write (stdout_chunks outs)) c0)"
proof (induction outs arbitrary: c c0)
  case Nil
  then show ?case by (simp add: observe_Inr)
next
  case (Cons out outs)
  show ?case
  proof (cases out)
    case (Stderr data)
    let ?c1 = "c\<lparr> effects := effects c @ [ConsoleError ''Git backend stderr:'' (toString rt data)] \<rparr>"
    have "observe (run rt (map output_event outs) ?c1)
        = observe (do_calls (map Write (stdout_chunks outs)) c0)"
      using Cons.prems by (intro Cons.IH) simp_all
    then show ?thesis by (simp add: Stderr stderr_data_def)
  next
    case (Stdout chunk)
    show ?thesis
    proof (cases "refusal (Write chunk) (calls c)")
      case (Some e)
      with Cons.prems show ?thesis
        by (simp add: Stdout stdout_data_def call_def observe_Inl)
    next
      case None
      let ?c1 = "c\<lparr> calls := calls c @ [Write chunk] \<rparr>"
      let ?c2 = "c0\<lparr> calls := calls c0 @ [Write chunk] \<rparr>"
      have "observe (run rt (map output_event outs) ?c1)
          = observe (do_calls (map Write (stdout_chunks outs)) ?c2)"
        using Cons.prems by (intro Cons.IH) simp_all
      with None Cons.prems show ?thesis
        by (simp add: Stdout stdout_data_def call_def)
    qed
  qed
qed

lemma run_not_found:
  "\<not> headersParsed c \<Longrightarrow>
   indexOf (responseBuffer c @ concat (stdout_chunks outs)) CRLFCRLF = None \<Longrightarrow>
   run rt (map output_event outs) c
     = Inr (c\<lparr> responseBuffer := responseBuffer c @ concat (stdout_chunks outs),
             effects := effects c @ stderr_log rt outs \<rparr>)"
proof (induction outs arbitrary: c)
  case Nil
  show ?case by simp
next
  case (Cons out outs)
  show ?case
  proof (cases out)
    case (Stderr data)
    let ?c1 = "c\<lparr> effects := effects c @ [ConsoleError ''Git backend stderr:'' (toString rt data)] \<rparr>"
    have "run rt (map output_event outs) ?c1
        = Inr (?c1\<lparr> responseBuffer := responseBuffer ?c1 @ concat (stdout_chunks outs),
                  effects := effects ?c1 @ stderr_log rt outs \<rparr>)"
      using Cons.prems by (intro Cons.IH) (simp_all add: Stderr)
    then show ?thesis by (simp add: Stderr stderr_data_def)
  next
    case (Stdout chunk)
    have n: "indexOf (responseBuffer c @ chunk) CRLFCRLF = None"
    proof (cases "indexOf (responseBuffer c @ chunk) CRLFCRLF")
      case (Some i)
      from indexOf_append [OF this, of "concat (stdout_chunks outs)"] Cons.prems(2)
      show ?thesis by (simp add: Stdout)
    qed simp
    let ?c1 = "c\<lparr> responseBuffer := responseBuffer c @ chunk \<rparr>"
    have s: "stdout_data rt chunk c = Inr ?c1"
      using Cons.prems(1) n by (simp add: stdout_data_def Let_def)
    have "run rt (map output_event outs) ?c1
        = Inr (?c1\<lparr> responseBuffer := responseBuffer ?c1 @ concat (stdout_chunks outs),
                  effects := effects ?c1 @ stderr_log rt outs \<rparr>)"
      using Cons.prems by (intro Cons.IH) (simp_all add: Stdout)
    with s show ?thesis by (simp add: Stdout)
  qed
qed

lemma do_translate:
  "calls c = [] \<Longrightarrow>
   do_calls (translate ls) c
     = (case find (\<lambda>h. \<not> accepted h) (forwarded ls) of
          None \<Rightarrow> Inr (c\<lparr> calls := translate ls \<rparr>)
        | Some h \<Rightarrow> Inl (the (header_refusal (fst h) (snd h)),
                         c\<lparr> calls := status_calls ls
                                      @ header_calls (takeWhile accepted (forwarded ls)) \<rparr>))"
proof -
  assume c: "calls c = []"
  let ?c1 = "c\<lparr> calls := status_calls ls \<rparr>"
  have s: "do_calls (status_calls ls) c = Inr ?c1"
    using do_status_calls [OF status_calls_status, of ls c] c by simp
  have "\<not> head_sent (calls ?c1)" using head_not_sent [OF status_calls_head, of ls] by simp
  from do_header_calls [OF this, of "forwarded ls"] s show ?thesis
    by (simp add: translate_def do_calls_append split: option.split)
qed

lemma run_found:
  assumes "indexOf b CRLFCRLF = None"
    and "indexOf (b @ concat (stdout_chunks outs)) CRLFCRLF = Some i"
  shows "\<exists>ws. concat ws = drop (i + 4) (b @ concat (stdout_chunks outs))
           \<and> observe (run rt (map output_event outs) ((listening es)\<lparr> responseBuffer := b \<rparr>))
             = observe (do_calls
                 (translate (split (toString rt (take i (b @ concat (stdout_chunks outs)))) CRLF)
                  @ map Write ws) fresh)"
  using assms
proof (induction outs arbitrary: b es)
  case Nil
  then show ?case by simp
next
  case (Cons out outs)
  show ?case
  proof (cases out)
    case (Stderr data)
    let ?es = "es @ [ConsoleError ''Git backend stderr:'' (toString rt data)]"
    from Cons.prems have "indexOf (b @ concat (stdout_chunks outs)) CRLFCRLF = Some i"
      by (simp add: Stderr)
    note ih = Cons.IH [OF Cons.prems(1) this, of ?es]
    have r: "run rt (map output_event (out # outs)) ((listening es)\<lparr> responseBuffer := b \<rparr>)
        = run rt (map output_event outs) ((listening ?es)\<lparr> responseBuffer := b \<rparr>)"
      by (simp add: Stderr stderr_data_def listening_def fresh_def)
    have st: "stdout_chunks (out # outs) = stdout_chunks outs" by (simp add: Stderr)
    from ih show ?thesis unfolding r st .
  next
    case (Stdout chunk)
    let ?B = "b @ chunk"
    let ?S = "b @ concat (stdout_chunks (out # outs))"
    let ?c = "(listening es)\<lparr> responseBuffer := b \<rparr>"
    let ?c1 = "(listening es)\<lparr> responseBuffer := ?B \<rparr>"
    have S: "?S = ?B @ concat (stdout_chunks outs)" by (simp add: Stdout)
    show ?thesis
    proof (cases "indexOf ?B CRLFCRLF")
      case None
      have s: "stdout_data rt chunk ?c = Inr ?c1"
        using None by (simp add: stdout_data_def Let_def listening_simps)
      from Cons.prems(2) have "indexOf (?B @ concat (stdout_chunks outs)) CRLFCRLF = Some i"
        by (simp add: Stdout)
      from Cons.IH [OF None this, of es] s show ?thesis
        by (simp add: Stdout)
    next
      case (Some j)
      from indexOf_append [OF Some, of "concat (stdout_chunks outs)"] Cons.prems(2)
      have j: "j = i" by (simp add: Stdout)
      from indexOf_bound [OF Some] j have len: "i + 4 \<le> length ?B" by (simp add: CRLFCRLF_def)
      let ?body = "drop (i + 4) ?B"
      let ?w = "if length ?body > 0 then [?body] else []"
      let ?ws = "?w @ stdout_chunks outs"
      let ?ls = "split (toString rt (take i ?B)) CRLF"
      have t: "take i ?S = take i ?B" using len by (simp add: Stdout)
      have d: "drop (i + 4) ?S = ?body @ concat (stdout_chunks outs)" using len by (simp add: Stdout)
      have cw: "concat ?ws = drop (i + 4) ?S" using d by simp
      have p: "parseHeaders rt (take i ?B) ?c1
          = (case find (\<lambda>h. \<not> accepted h) (forwarded ?ls) of
               None \<Rightarrow>
                 Inr (?c1\<lparr> calls := calls ?c1 @ translate ?ls,
                         responseHeaders := fold (\<lambda>(k, v). assign k v) (fields ?ls) [],
                         headersParsed := True \<rparr>)
             | Some h \<Rightarrow>
                 Inl (the (header_refusal (fst h) (snd h)),
                      ?c1\<lparr> calls := calls ?c1 @ status_calls ?ls
                                   @ header_calls (takeWhile accepted (forwarded ?ls)),
                         responseHeaders := fold (\<lambda>(k, v). assign k v) (fields ?ls) [] \<rparr>))"
        by (rule parseHeaders_translate) (simp_all add: listening_simps head_sent_def)
      have f: "do_calls (translate ?ls) fresh
          = (case find (\<lambda>h. \<not> accepted h) (forwarded ?ls) of
               None \<Rightarrow> Inr (fresh\<lparr> calls := translate ?ls \<rparr>)
             | Some h \<Rightarrow> Inl (the (header_refusal (fst h) (snd h)),
                              fresh\<lparr> calls := status_calls ?ls
                                   @ header_calls (takeWhile accepted (forwarded ?ls)) \<rparr>))"
        by (rule do_translate) (simp add: fresh_def)
      have "observe (run rt (map output_event (out # outs)) ?c)
          = observe (do_calls (translate ?ls @ map Write ?ws) fresh)"
      proof (cases "find (\<lambda>h. \<not> accepted h) (forwarded ?ls)")
        case (Some h)
        with p f show ?thesis
          using Some j \<open>indexOf ?B CRLFCRLF = Some j\<close>
          by (simp add: Stdout stdout_data_def Let_def listening_simps do_calls_append observe_Inl)
      next
        case None
        let ?c2 = "?c1\<lparr> calls := translate ?ls,
                         responseHeaders := fold (\<lambda>(k, v). assign k v) (fields ?ls) [],
                         headersParsed := True \<rparr>"
        let ?f2 = "fresh\<lparr> calls := translate ?ls \<rparr>"
        have sd: "stdout_data rt chunk ?c
            = (if length ?body > 0 then call (Write ?body) ?c2 else Inr ?c2)"
          using None p j \<open>indexOf ?B CRLFCRLF = Some j\<close>
          by (simp add: stdout_data_def Let_def listening_simps)
        have rest: "observe (run rt (map output_event outs) d)
            = observe (do_calls (map Write (stdout_chunks outs)) d')"
          if "headersParsed d" "calls d = calls d'" for d d'
          using that by (rule run_parsed)
        have "observe (case stdout_data rt chunk ?c of Inl x \<Rightarrow> Inl x
                       | Inr c' \<Rightarrow> run rt (map output_event outs) c')
            = observe (do_calls (map Write ?ws) ?f2)"
        proof (cases "length ?body > 0")
          case False
          have "observe (run rt (map output_event outs) ?c2)
              = observe (do_calls (map Write (stdout_chunks outs)) ?f2)"
            by (rule rest) simp_all
          with False sd show ?thesis by simp
        next
          case True
          show ?thesis
          proof (cases "refusal (Write ?body) (translate ?ls)")
            case (Some e)
            with True sd show ?thesis by (simp add: call_def observe_Inl)
          next
            case None
            have "observe (run rt (map output_event outs) (?c2\<lparr> calls := calls ?c2 @ [Write ?body] \<rparr>))
                = observe (do_calls (map Write (stdout_chunks outs))
                     (?f2\<lparr> calls := calls ?f2 @ [Write ?body] \<rparr>))"
              by (rule rest) simp_all
            with None True sd show ?thesis by (simp add: call_def)
          qed
        qed
        with None f show ?thesis by (simp add: Stdout do_calls_append)
      qed
      with cw show ?thesis unfolding t by blast
    qed
  qed
qed

subsection \<open>What the calls make of the response\<close>

lemma status_of_body: "list_all is_body_call bs \<Longrightarrow> status_of n bs = n"
  by (cases bs; cases "hd bs") (auto simp: is_body_call_def)

lemma status_of_head_body:
  "list_all is_head_call hs \<Longrightarrow> list_all is_body_call bs \<Longrightarrow>
   status_of n (hs @ bs) = status_of n hs"
proof (induction hs arbitrary: n)
  case Nil
  then show ?case by (simp add: status_of_body)
next
  case (Cons h hs)
  then show ?case by (cases h) auto
qed

lemma response_headers_body: "list_all is_body_call bs \<Longrightarrow> response_headers bs = []"
  by (cases bs; cases "hd bs") (auto simp: is_body_call_def)

lemma response_headers_head_body:
  "list_all is_head_call hs \<Longrightarrow> list_all is_body_call bs \<Longrightarrow>
   response_headers (hs @ bs) = response_headers hs"
proof (induction hs)
  case Nil
  then show ?case by (simp add: response_headers_body)
next
  case (Cons h hs)
  then show ?case by (cases h) auto
qed

lemma response_body_head: "list_all is_head_call hs \<Longrightarrow> response_body (hs @ bs) = response_body bs"
proof (induction hs)
  case Nil
  show ?case by simp
next
  case (Cons h hs)
  then show ?case by (cases h) auto
qed

lemma response_body_writes: "response_body (map Write ws @ [End None]) = concat ws"
  by (induction ws) auto

lemma writes_are_body: "list_all is_body_call (map Write ws @ [End None])"
  by (simp add: is_body_call_def list_all_iff)

lemma filter_head_body:
  "list_all is_head_call hs \<Longrightarrow> list_all is_body_call bs \<Longrightarrow>
   filter is_head_call (hs @ bs) = hs"
  by (simp add: list_all_iff is_body_call_def)

lemma head_then_body_append:
  "list_all is_head_call hs \<Longrightarrow> list_all is_body_call bs \<Longrightarrow> head_then_body (hs @ bs)"
proof (induction hs)
  case Nil
  then show ?case by (cases bs) (auto simp: list_all_iff is_body_call_def)
next
  case (Cons h hs)
  then show ?case by simp
qed

lemma find_refused:
  "find (\<lambda>h. \<not> accepted h) hs = (case dropWhile accepted hs of [] \<Rightarrow> None | h # rest \<Rightarrow> Some h)"
  by (induction hs) simp_all

lemma first_refusal_find:
  "first_refusal hs
     = (case find (\<lambda>h. \<not> accepted h) hs of None \<Rightarrow> None
        | Some h \<Rightarrow> Some (the (header_refusal (fst h) (snd h))))"
proof (cases "dropWhile accepted hs")
  case Nil
  show ?thesis unfolding first_refusal_def find_refused Nil by simp
next
  case (Cons h rest)
  then have "\<not> accepted h" using hd_dropWhile [of accepted hs] by auto
  then obtain e where "header_refusal (fst h) (snd h) = Some e" by (auto simp: accepted_def)
  then show ?thesis unfolding first_refusal_def find_refused Cons by simp
qed

lemma first_refusal_None: "(first_refusal hs = None) = list_all accepted hs"
proof (cases "dropWhile accepted hs")
  case Nil
  then have "list_all accepted hs" by (simp add: list_all_iff)
  then show ?thesis unfolding first_refusal_def Nil by simp
next
  case (Cons h rest)
  then have n: "\<not> accepted h" using hd_dropWhile [of accepted hs] by auto
  from Cons have "dropWhile accepted hs \<noteq> []" by simp
  then have "\<not> list_all accepted hs" by (simp add: list_all_iff)
  with n show ?thesis unfolding first_refusal_def Cons by (simp add: accepted_def)
qed

lemma takeWhile_accepted: "list_all accepted hs \<Longrightarrow> takeWhile accepted hs = hs"
  by (simp add: takeWhile_eq_all_conv list_all_iff)

lemma observe_body:
  assumes "list_all is_head_call (calls c)" and "E = [] \<or> E = [End None]"
  shows "observe (do_calls (map Write ws @ E) c)
       = (if status_ok (response_status (calls c)) \<or> (ws = [] \<and> E = [])
          then (None, calls c @ map Write ws @ E)
          else (Some (ERR_HTTP_INVALID_STATUS_CODE (response_status (calls c))), calls c))"
proof -
  have s: "\<not> head_sent (calls c)" by (rule head_not_sent [OF assms(1)])
  have e: "\<not> response_ended (calls c)" by (rule head_not_ended [OF assms(1)])
  show ?thesis
  proof (cases ws)
    case Nil
    with assms(2) s e show ?thesis
      by (auto simp: call_def head_refusal_def observe_Inl observe_Inr)
  next
    case (Cons w ws')
    show ?thesis
    proof (cases "status_ok (response_status (calls c))")
      case False
      with s e show ?thesis by (simp add: Cons call_def head_refusal_def observe_Inl)
    next
      case True
      let ?c1 = "c\<lparr> calls := calls c @ [Write w] \<rparr>"
      from True s e have c: "call (Write w) c = Inr ?c1" by (simp add: call_def head_refusal_def)
      have h: "head_sent (calls ?c1)" by (simp add: head_sent_append) (simp add: head_sent_def is_body_call_def)
      have n: "\<not> response_ended (calls ?c1)"
        using e by (simp add: response_ended_append) (simp add: response_ended_def)
      let ?c2 = "?c1\<lparr> calls := calls ?c1 @ map Write ws' \<rparr>"
      have w: "do_calls (map Write ws') ?c1 = Inr ?c2" by (rule writes_after_head [OF h n])
      have h2: "head_sent (calls ?c2)" using h by (auto simp: head_sent_def)
      have "do_calls E ?c2 = Inr (?c2\<lparr> calls := calls ?c2 @ E \<rparr>)"
        using assms(2) end_after_head [OF h2] by auto
      with c w True show ?thesis by (simp add: Cons do_calls_append observe_Inr)
    qed
  qed
qed

lemma observe_translate:
  assumes "E = [] \<or> E = [End None]"
  shows "observe (do_calls (translate ls @ map Write ws @ E) fresh)
       = (if \<not> list_all accepted (forwarded ls)
          then (first_refusal (forwarded ls),
                status_calls ls @ header_calls (takeWhile accepted (forwarded ls)))
          else if status_ok (response_status (translate ls)) \<or> (ws = [] \<and> E = [])
          then (None, translate ls @ map Write ws @ E)
          else (Some (ERR_HTTP_INVALID_STATUS_CODE (response_status (translate ls))), translate ls))"
proof -
  have f: "do_calls (translate ls) fresh
      = (case find (\<lambda>h. \<not> accepted h) (forwarded ls) of
           None \<Rightarrow> Inr (fresh\<lparr> calls := translate ls \<rparr>)
         | Some h \<Rightarrow> Inl (the (header_refusal (fst h) (snd h)),
                          fresh\<lparr> calls := status_calls ls
                               @ header_calls (takeWhile accepted (forwarded ls)) \<rparr>))"
    by (rule do_translate) (simp add: fresh_def)
  show ?thesis
  proof (cases "find (\<lambda>h. \<not> accepted h) (forwarded ls)")
    case (Some h)
    then have r: "first_refusal (forwarded ls) = Some (the (header_refusal (fst h) (snd h)))"
      by (simp add: first_refusal_find)
    then have "\<not> list_all accepted (forwarded ls)" by (simp add: first_refusal_None [symmetric])
    with Some f r show ?thesis by (simp add: do_calls_append observe_Inl)
  next
    case None
    then have "first_refusal (forwarded ls) = None" by (simp add: first_refusal_find)
    then have a: "list_all accepted (forwarded ls)" by (simp add: first_refusal_None)
    let ?c = "fresh\<lparr> calls := translate ls \<rparr>"
    have "list_all is_head_call (calls ?c)" by (simp add: translate_head)
    from observe_body [OF this assms, of ws] None f a show ?thesis
      by (simp add: do_calls_append)
  qed
qed

lemma map_output_event: "map (output_event \<circ> Stdout) chunks = map StdoutData chunks"
  by (induction chunks) simp_all

lemma stdout_chunks_map: "stdout_chunks (map Stdout chunks) = chunks"
  by (induction chunks) simp_all

lemma running_with_delimiter:
  assumes "first_occurrence (concat (stdout_chunks outs)) CRLFCRLF i"
  shows "\<exists>ws. concat ws = drop (i + 4) (concat (stdout_chunks outs))
           \<and> observe (run rt (map output_event outs) (listening es))
             = observe (do_calls
                 (translate (header_lines rt (concat (stdout_chunks outs)) i) @ map Write ws @ []) fresh)"
proof -
  from assms have "indexOf ([] @ concat (stdout_chunks outs)) CRLFCRLF = Some i"
    by (simp add: first_indexOf)
  moreover have "indexOf [] CRLFCRLF = None" by (simp add: CRLFCRLF_def)
  ultimately have "\<exists>ws. concat ws = drop (i + 4) ([] @ concat (stdout_chunks outs))
           \<and> observe (run rt (map output_event outs) ((listening es)\<lparr> responseBuffer := [] \<rparr>))
             = observe (do_calls
                 (translate (split (toString rt (take i ([] @ concat (stdout_chunks outs)))) CRLF)
                  @ map Write ws) fresh)"
    by (intro run_found)
  moreover have "(listening es)\<lparr> responseBuffer := [] \<rparr> = listening es"
    by (simp add: listening_def fresh_def)
  ultimately show ?thesis by (simp add: header_lines_def)
qed

lemma observe_then_stderr:
  "observe (case r of Inl x \<Rightarrow> Inl x | Inr c \<Rightarrow> run rt (map StderrData late) c) = observe r"
  by (cases r) (auto simp: run_stderr observe_Inr)

lemma ended_with_delimiter:
  assumes "first_occurrence (concat (stdout_chunks outs)) CRLFCRLF i"
  shows "\<exists>ws. concat ws = drop (i + 4) (concat (stdout_chunks outs))
           \<and> observe (run rt (events_of (Ended outs late)) (listening es))
             = observe (do_calls
                 (translate (header_lines rt (concat (stdout_chunks outs)) i)
                  @ map Write ws @ [End None]) fresh)"
proof -
  from running_with_delimiter [OF assms, of rt es] obtain ws where
    c: "concat ws = drop (i + 4) (concat (stdout_chunks outs))" and
    o: "observe (run rt (map output_event outs) (listening es))
         = observe (do_calls (translate (header_lines rt (concat (stdout_chunks outs)) i)
                              @ map Write ws) fresh)"
    by auto
  have "observe (case run rt (map output_event outs) (listening es) of Inl x \<Rightarrow> Inl x
                 | Inr c' \<Rightarrow> call (End None) c')
      = observe (do_calls ((translate (header_lines rt (concat (stdout_chunks outs)) i)
                            @ map Write ws) @ [End None]) fresh)"
    by (rule observe_then_call [OF o])
  moreover have "run rt (events_of (Ended outs late)) (listening es)
      = (case (case run rt (map output_event outs) (listening es) of Inl x \<Rightarrow> Inl x
               | Inr c' \<Rightarrow> call (End None) c') of
           Inl x \<Rightarrow> Inl x | Inr c \<Rightarrow> run rt (map StderrData late) c)"
    by (simp add: run_append stdout_end_def split: sum.split)
  ultimately have "observe (run rt (events_of (Ended outs late)) (listening es))
      = observe (do_calls (translate (header_lines rt (concat (stdout_chunks outs)) i)
                            @ map Write ws @ [End None]) fresh)"
    by (simp add: observe_then_stderr)
  with c show ?thesis by blast
qed

lemma without_delimiter:
  assumes "\<not> includes_sub (concat (stdout_chunks outs)) CRLFCRLF"
  shows "run rt (map output_event outs) (listening es)
       = Inr ((listening (es @ stderr_log rt outs))\<lparr> responseBuffer := concat (stdout_chunks outs) \<rparr>)"
proof -
  from assms have "indexOf (responseBuffer (listening es) @ concat (stdout_chunks outs)) CRLFCRLF = None"
    by (simp add: indexOf_None_includes listening_simps)
  then have "run rt (map output_event outs) (listening es)
      = Inr ((listening es)\<lparr> responseBuffer := responseBuffer (listening es) @ concat (stdout_chunks outs),
               effects := effects (listening es) @ stderr_log rt outs \<rparr>)"
    by (intro run_not_found) (simp_all add: listening_simps)
  then show ?thesis by (simp add: listening_def fresh_def)
qed

lemma stdout_events_Ended: "stdout_events chunks = events_of (Ended (map Stdout chunks) [])"
  by (simp add: stdout_events_def map_output_event)


lemma stream_with_delimiter:
  assumes "first_occurrence (concat chunks) CRLFCRLF i"
  shows "\<exists>ws. concat ws = drop (i + 4) (concat chunks)
           \<and> observe (run rt (stdout_events chunks) (listening es))
             = (if \<not> list_all accepted (forwarded (header_lines rt (concat chunks) i))
                then (first_refusal (forwarded (header_lines rt (concat chunks) i)),
                      status_calls (header_lines rt (concat chunks) i)
                      @ header_calls (takeWhile accepted (forwarded (header_lines rt (concat chunks) i))))
                else if status_ok (response_status (translate (header_lines rt (concat chunks) i)))
                then (None, translate (header_lines rt (concat chunks) i) @ map Write ws @ [End None])
                else (Some (ERR_HTTP_INVALID_STATUS_CODE
                              (response_status (translate (header_lines rt (concat chunks) i)))),
                      translate (header_lines rt (concat chunks) i)))"
proof -
  from assms have "first_occurrence (concat (stdout_chunks (map Stdout chunks))) CRLFCRLF i"
    by (simp add: stdout_chunks_map)
  from ended_with_delimiter [OF this, of rt "[]" es] obtain ws where
    "concat ws = drop (i + 4) (concat chunks)"
    "observe (run rt (stdout_events chunks) (listening es))
       = observe (do_calls (translate (header_lines rt (concat chunks) i)
                            @ map Write ws @ [End None]) fresh)"
    by (auto simp: stdout_chunks_map stdout_events_Ended)
  then show ?thesis by (auto simp: observe_translate)
qed

lemma stream_without_delimiter:
  assumes "\<not> includes_sub (concat chunks) CRLFCRLF"
  shows "run rt (stdout_events chunks) (listening es)
       = Inr ((listening es)\<lparr> responseBuffer := concat chunks, calls := [End None] \<rparr>)"
proof -
  from assms have "\<not> includes_sub (concat (stdout_chunks (map Stdout chunks))) CRLFCRLF"
    by (simp add: stdout_chunks_map)
  from without_delimiter [OF this, of rt es]
  have "run rt (map StdoutData chunks) (listening es)
      = Inr ((listening (es @ stderr_log rt (map Stdout chunks)))\<lparr> responseBuffer := concat chunks \<rparr>)"
    by (simp add: map_output_event stdout_chunks_map)
  moreover have "stderr_log rt (map Stdout chunks) = []" by (induction chunks) simp_all
  ultimately show ?thesis
    by (simp add: stdout_events_def run_append stdout_end_def call_def listening_simps
          head_refusal_def head_sent_def response_ended_def response_status_def status_ok_def
          toInt32_def)
qed


text \<open>
  C9. The response does not depend on how the stream is cut into chunks: what is thrown, the
  status assignments and \<^verbatim>\<open>setHeader\<close> calls, the status and the headers sent, and the
  bytes of the body are those of the stream arriving as one chunk.
\<close>

theorem chunking_is_unobservable:
  "thrown (run rt (stdout_events chunks) (listening es))
     = thrown (run rt (stdout_events [concat chunks]) (listening es))
   \<and> filter is_head_call (res_calls (run rt (stdout_events chunks) (listening es)))
     = filter is_head_call (res_calls (run rt (stdout_events [concat chunks]) (listening es)))
   \<and> response_status (res_calls (run rt (stdout_events chunks) (listening es)))
     = response_status (res_calls (run rt (stdout_events [concat chunks]) (listening es)))
   \<and> response_headers (res_calls (run rt (stdout_events chunks) (listening es)))
     = response_headers (res_calls (run rt (stdout_events [concat chunks]) (listening es)))
   \<and> response_body (res_calls (run rt (stdout_events chunks) (listening es)))
     = response_body (res_calls (run rt (stdout_events [concat chunks]) (listening es)))"
proof (cases "indexOf (concat chunks) CRLFCRLF")
  case None
  then have a: "\<not> includes_sub (concat chunks) CRLFCRLF" by (simp add: indexOf_None_includes)
  then have b: "\<not> includes_sub (concat [concat chunks]) CRLFCRLF" by simp
  from stream_without_delimiter [OF a, of rt es] stream_without_delimiter [OF b, of rt es]
  show ?thesis by (simp add: thrown_def res_calls_def)
next
  case (Some i)
  let ?ls = "header_lines rt (concat chunks) i"
  let ?A = "run rt (stdout_events chunks) (listening es)"
  let ?B = "run rt (stdout_events [concat chunks]) (listening es)"
  from Some have f: "first_occurrence (concat chunks) CRLFCRLF i" by (rule indexOf_first)
  then have g: "first_occurrence (concat [concat chunks]) CRLFCRLF i" by simp
  from stream_with_delimiter [OF f, of rt es] obtain ws where
    w: "concat ws = drop (i + 4) (concat chunks)" and
    a: "observe ?A
         = (if \<not> list_all accepted (forwarded ?ls)
            then (first_refusal (forwarded ?ls),
                  status_calls ?ls @ header_calls (takeWhile accepted (forwarded ?ls)))
            else if status_ok (response_status (translate ?ls))
            then (None, translate ?ls @ map Write ws @ [End None])
            else (Some (ERR_HTTP_INVALID_STATUS_CODE (response_status (translate ?ls))),
                  translate ?ls))"
    by blast
  from stream_with_delimiter [OF g, of rt es] obtain ws' where
    w': "concat ws' = drop (i + 4) (concat chunks)" and
    b: "observe ?B
         = (if \<not> list_all accepted (forwarded ?ls)
            then (first_refusal (forwarded ?ls),
                  status_calls ?ls @ header_calls (takeWhile accepted (forwarded ?ls)))
            else if status_ok (response_status (translate ?ls))
            then (None, translate ?ls @ map Write ws' @ [End None])
            else (Some (ERR_HTTP_INVALID_STATUS_CODE (response_status (translate ?ls))),
                  translate ?ls))"
    by auto
  have h: "list_all is_head_call (translate ?ls)" by (rule translate_head)
  show ?thesis
  proof (cases "list_all accepted (forwarded ?ls) \<and> status_ok (response_status (translate ?ls))")
    case False
    with a b have "observe ?A = observe ?B" by auto
    then have "thrown ?A = thrown ?B" "res_calls ?A = res_calls ?B"
      by (simp_all add: observe_def)
    then show ?thesis by simp
  next
    case True
    with a b have A: "thrown ?A = None" "res_calls ?A = translate ?ls @ map Write ws @ [End None]"
      and B: "thrown ?B = None" "res_calls ?B = translate ?ls @ map Write ws' @ [End None]"
      by (simp_all add: observe_def)
    have "filter is_head_call (translate ?ls @ map Write ws @ [End None]) = translate ?ls"
      "filter is_head_call (translate ?ls @ map Write ws' @ [End None]) = translate ?ls"
      by (rule filter_head_body [OF h writes_are_body])+
    moreover have "status_of n (translate ?ls @ map Write ws @ [End None]) = status_of n (translate ?ls)"
      "status_of n (translate ?ls @ map Write ws' @ [End None]) = status_of n (translate ?ls)" for n
      by (rule status_of_head_body [OF h writes_are_body])+
    moreover have "response_headers (translate ?ls @ map Write ws @ [End None]) = response_headers (translate ?ls)"
      "response_headers (translate ?ls @ map Write ws' @ [End None]) = response_headers (translate ?ls)"
      by (rule response_headers_head_body [OF h writes_are_body])+
    moreover have "response_body (translate ?ls @ map Write ws @ [End None]) = concat ws"
      "response_body (translate ?ls @ map Write ws' @ [End None]) = concat ws'"
      by (simp_all add: response_body_head [OF h] response_body_writes)
    ultimately show ?thesis
      unfolding A B response_status_def using w w' by simp
  qed
qed

lemma ended_without_delimiter:
  assumes "\<not> includes_sub (concat (stdout_chunks outs)) CRLFCRLF"
  shows "run rt (events_of (Ended outs late)) (listening es)
       = Inr ((listening (es @ stderr_log rt outs
                 @ map (\<lambda>d. ConsoleError ''Git backend stderr:'' (toString rt d)) late))
              \<lparr> responseBuffer := concat (stdout_chunks outs), calls := [End None] \<rparr>)"
proof -
  let ?c1 = "(listening (es @ stderr_log rt outs))\<lparr> responseBuffer := concat (stdout_chunks outs) \<rparr>"
  let ?c2 = "?c1\<lparr> calls := calls ?c1 @ [End None] \<rparr>"
  have r: "run rt (map output_event outs) (listening es) = Inr ?c1"
    by (rule without_delimiter [OF assms])
  have "refusal (End None) (calls ?c1) = None"
    by (simp add: listening_simps head_refusal_def head_sent_def response_ended_def
          response_status_def status_ok_def toInt32_def)
  then have e: "stdout_end ?c1 = Inr ?c2" unfolding stdout_end_def by (rule call_accepted)
  have "run rt (events_of (Ended outs late)) (listening es)
      = run rt (map StderrData late) ?c2"
    by (simp add: run_append r e)
  then show ?thesis by (simp add: run_stderr listening_def fresh_def)
qed

lemma no_delimiter_calls:
  assumes "\<not> includes_sub (concat (stdout_chunks outs)) CRLFCRLF"
  shows "res_calls (run rt (events_of (Ended outs late)) (listening es)) = [End None]"
  unfolding ended_without_delimiter [OF assms] by (simp add: res_calls_def)

text \<open>
  C10 as the program has it. When the backend was spawned and its standard output ends
  without CR LF CR LF, whatever came on the standard error before and after: nothing is
  thrown, the only call on the response is the final \<^verbatim>\<open>end()\<close>, so that no header is set,
  no byte is written and the status is the default 200; all the output stays in
  \<^verbatim>\<open>responseBuffer\<close>.
\<close>

theorem no_delimiter_no_output:
  assumes "\<not> includes_sub (concat (stdout_chunks outs)) CRLFCRLF"
  shows "thrown (run rt (events_of (Ended outs late)) (listening es)) = None
       \<and> res_calls (run rt (events_of (Ended outs late)) (listening es)) = [End None]
       \<and> response_status (res_calls (run rt (events_of (Ended outs late)) (listening es))) = Num 200
       \<and> response_headers (res_calls (run rt (events_of (Ended outs late)) (listening es))) = []
       \<and> response_body (res_calls (run rt (events_of (Ended outs late)) (listening es))) = []
       \<and> response_ended (res_calls (run rt (events_of (Ended outs late)) (listening es)))
       \<and> responseBuffer (final (run rt (events_of (Ended outs late)) (listening es)))
           = concat (stdout_chunks outs)"
  unfolding ended_without_delimiter [OF assms]
  by (simp add: thrown_def res_calls_def final_def response_status_def response_ended_def)

text \<open>
  C10 says that whenever the standard output ends without the delimiter the response has
  the status 200 and no body. When the backend cannot be spawned its standard output ends
  with no data at all, and the response is the one of the \<^verbatim>\<open>'error'\<close> listener.
\<close>

theorem spawn_failure_is_not_200:
  "StdoutEnd \<in> set (events_of (Spawn_fails ''spawn git ENOENT''))
   \<and> \<not> includes_sub (stdout_of (events_of (Spawn_fails ''spawn git ENOENT''))) CRLFCRLF
   \<and> response_status (res_calls (run example_rt (events_of (Spawn_fails ''spawn git ENOENT''))
        (listening []))) = Num 500
   \<and> response_body (res_calls (run example_rt (events_of (Spawn_fails ''spawn git ENOENT''))
        (listening []))) = ''Internal Server Error''"
  by (simp add: CRLFCRLF_def backend_error_def stdout_end_def call_def listening_def fresh_def
        head_refusal_def head_sent_def response_ended_def response_status_def status_ok_def
        toInt32_def is_body_call_def res_calls_def)

subsection \<open>Status and headers before the body\<close>

lemma head_calls_of_observed:
  assumes "observe r
       = (if \<not> list_all accepted (forwarded ls)
          then (first_refusal (forwarded ls),
                status_calls ls @ header_calls (takeWhile accepted (forwarded ls)))
          else if ok
          then (None, translate ls @ map Write ws @ E)
          else (Some e, translate ls))"
    and "E = [] \<or> E = [End None]"
  shows "head_then_body (res_calls r)
       \<and> filter is_head_call (res_calls r)
           = status_calls ls @ header_calls (takeWhile accepted (forwarded ls))"
proof -
  let ?p = "status_calls ls @ header_calls (takeWhile accepted (forwarded ls))"
  have h: "list_all is_head_call (translate ls)" by (rule translate_head)
  have h': "list_all is_head_call ?p" by (simp add: status_calls_head header_calls_head)
  have b: "list_all is_body_call (map Write ws @ E)"
    using assms(2) by (auto simp: is_body_call_def list_all_iff)
  have n: "list_all is_body_call []" by simp
  show ?thesis
  proof (cases "list_all accepted (forwarded ls)")
    case False
    with assms(1) have "res_calls r = ?p" by (simp add: observe_def)
    with head_then_body_append [OF h' n] filter_head_body [OF h' n] show ?thesis by simp
  next
    case True
    then have t: "?p = translate ls" by (simp add: translate_def takeWhile_accepted)
    show ?thesis
    proof (cases ok)
      case True
      with \<open>list_all accepted (forwarded ls)\<close> assms(1)
      have "res_calls r = translate ls @ map Write ws @ E" by (simp add: observe_def)
      with head_then_body_append [OF h b] filter_head_body [OF h b] t show ?thesis by simp
    next
      case False
      with \<open>list_all accepted (forwarded ls)\<close> assms(1)
      have "res_calls r = translate ls" by (simp add: observe_def)
      with head_then_body_append [OF h n] filter_head_body [OF h n] t show ?thesis by simp
    qed
  qed
qed

lemma spawn_failure_calls:
  "run rt (events_of (Spawn_fails err)) (listening es)
     = Inr ((listening (es @ [ConsoleError ''Git backend error:'' err]))
            \<lparr> calls := [SetStatus (Num 500), End (Some ''Internal Server Error''), End None] \<rparr>)"
  by (simp add: backend_error_def stdout_end_def call_def listening_def fresh_def
        head_refusal_def head_sent_def response_ended_def response_status_def status_ok_def
        toInt32_def is_body_call_def)

text \<open>
  C4 as the program has it, for every request handed to a backend, whatever the backend
  does: it cannot be spawned, it is running, or its output has ended. The calls that set
  the status or a header all come before the calls that send the body, so that nothing of
  the head is touched once a byte of the body is written. On a spawn failure the status is
  set once, to 500. Otherwise the head is set when the header section is translated, which
  happens once, when the output comes to contain CR LF CR LF, and never when it does not:
  the status code is assigned once for every status line, in order, and then each
  forwarded header is set once, up to the first that Node refuses.
\<close>

theorem head_before_body:
  "head_then_body (res_calls (run rt (events_of b) (listening es)))
   \<and> (b = Spawn_fails err \<longrightarrow>
        filter is_head_call (res_calls (run rt (events_of b) (listening es)))
          = [SetStatus (Num 500)])
   \<and> ((b = Running outs \<or> b = Ended outs late)
        \<and> \<not> includes_sub (concat (stdout_chunks outs)) CRLFCRLF \<longrightarrow>
        filter is_head_call (res_calls (run rt (events_of b) (listening es))) = [])
   \<and> ((b = Running outs \<or> b = Ended outs late)
        \<and> first_occurrence (concat (stdout_chunks outs)) CRLFCRLF i \<longrightarrow>
        filter is_head_call (res_calls (run rt (events_of b) (listening es)))
          = status_calls (header_lines rt (concat (stdout_chunks outs)) i)
            @ header_calls (takeWhile accepted
                (forwarded (header_lines rt (concat (stdout_chunks outs)) i))))"
proof -
  let ?r = "\<lambda>b. run rt (events_of b) (listening es)"
  have running: "head_then_body (res_calls (?r (Running os)))
       \<and> (\<not> includes_sub (concat (stdout_chunks os)) CRLFCRLF \<longrightarrow>
            filter is_head_call (res_calls (?r (Running os))) = [])
       \<and> (first_occurrence (concat (stdout_chunks os)) CRLFCRLF j \<longrightarrow>
            filter is_head_call (res_calls (?r (Running os)))
              = status_calls (header_lines rt (concat (stdout_chunks os)) j)
                @ header_calls (takeWhile accepted
                    (forwarded (header_lines rt (concat (stdout_chunks os)) j))))" for os j
  proof (cases "indexOf (concat (stdout_chunks os)) CRLFCRLF")
    case None
    then have n: "\<not> includes_sub (concat (stdout_chunks os)) CRLFCRLF"
      by (simp add: indexOf_None_includes)
    from None have "\<not> first_occurrence (concat (stdout_chunks os)) CRLFCRLF j"
      using first_indexOf [of "concat (stdout_chunks os)" CRLFCRLF j] by auto
    with n without_delimiter [OF n, of rt es] show ?thesis
      by (simp add: res_calls_def listening_simps)
  next
    case (Some k)
    then have f: "first_occurrence (concat (stdout_chunks os)) CRLFCRLF k" by (rule indexOf_first)
    from Some have y: "includes_sub (concat (stdout_chunks os)) CRLFCRLF"
      using indexOf_None_includes [of "concat (stdout_chunks os)" CRLFCRLF] by simp
    have same: "j = k" if "first_occurrence (concat (stdout_chunks os)) CRLFCRLF j"
      using first_indexOf [OF that] Some by simp
    from running_with_delimiter [OF f, of rt es] obtain ws where
      o: "observe (?r (Running os))
         = observe (do_calls (translate (header_lines rt (concat (stdout_chunks os)) k)
                              @ map Write ws @ []) fresh)"
      by auto
    note t = observe_translate [where E = "[]", OF disjI1 [OF refl]]
    from head_calls_of_observed [OF trans [OF o t] disjI1 [OF refl]] y same
    show ?thesis by auto
  qed
  have ended: "head_then_body (res_calls (?r (Ended os l)))
       \<and> (\<not> includes_sub (concat (stdout_chunks os)) CRLFCRLF \<longrightarrow>
            filter is_head_call (res_calls (?r (Ended os l))) = [])
       \<and> (first_occurrence (concat (stdout_chunks os)) CRLFCRLF j \<longrightarrow>
            filter is_head_call (res_calls (?r (Ended os l)))
              = status_calls (header_lines rt (concat (stdout_chunks os)) j)
                @ header_calls (takeWhile accepted
                    (forwarded (header_lines rt (concat (stdout_chunks os)) j))))" for os l j
  proof (cases "indexOf (concat (stdout_chunks os)) CRLFCRLF")
    case None
    then have n: "\<not> includes_sub (concat (stdout_chunks os)) CRLFCRLF"
      by (simp add: indexOf_None_includes)
    from None have "\<not> first_occurrence (concat (stdout_chunks os)) CRLFCRLF j"
      using first_indexOf [of "concat (stdout_chunks os)" CRLFCRLF j] by auto
    with n no_delimiter_calls [OF n, of rt l es] show ?thesis
      by (simp add: is_body_call_def)
  next
    case (Some k)
    then have f: "first_occurrence (concat (stdout_chunks os)) CRLFCRLF k" by (rule indexOf_first)
    from Some have y: "includes_sub (concat (stdout_chunks os)) CRLFCRLF"
      using indexOf_None_includes [of "concat (stdout_chunks os)" CRLFCRLF] by simp
    have same: "j = k" if "first_occurrence (concat (stdout_chunks os)) CRLFCRLF j"
      using first_indexOf [OF that] Some by simp
    from ended_with_delimiter [OF f, of rt l es] obtain ws where
      o: "observe (?r (Ended os l))
         = observe (do_calls (translate (header_lines rt (concat (stdout_chunks os)) k)
                              @ map Write ws @ [End None]) fresh)"
      by auto
    note t = observe_translate [where E = "[End None]", OF disjI2 [OF refl]]
    from head_calls_of_observed [OF trans [OF o t] disjI2 [OF refl]] y same
    show ?thesis by auto
  qed
  show ?thesis
  proof (cases b)
    case (Spawn_fails e)
    show ?thesis
      unfolding Spawn_fails spawn_failure_calls by (simp add: res_calls_def is_body_call_def)
  next
    case (Running os)
    with running [of os i] show ?thesis by auto
  next
    case (Ended os l)
    with ended [of os l i] show ?thesis by auto
  next
    case No_streams
    then show ?thesis by (simp add: res_calls_def listening_simps)
  next
    case (Spawn_throws e)
    then show ?thesis by (simp add: res_calls_def listening_simps)
  qed
qed

subsection \<open>Requests the handler answers itself\<close>

lemma bad_request_calls:
  "do_calls [SetStatus (Num 400), End (Some ''Bad Request'')] fresh
     = Inr (fresh\<lparr> calls := [SetStatus (Num 400), End (Some ''Bad Request'')] \<rparr>)"
  by (simp add: call_def fresh_def head_refusal_def head_sent_def response_ended_def
        response_status_def status_ok_def toInt32_def)

lemma not_found_calls:
  "do_calls [SetStatus (Num 404), SetHeader ''Content-Type'' ''text/plain'',
             End (Some ''Not Found'')] fresh
     = Inr (fresh\<lparr> calls := [SetStatus (Num 404), SetHeader ''Content-Type'' ''text/plain'',
                                End (Some ''Not Found'')] \<rparr>)"
  by (simp add: call_def fresh_def head_refusal_def head_sent_def response_ended_def
        response_status_def status_ok_def toInt32_def header_refusal_def checkIsHttpToken_def
        checkInvalidHeaderChar_def token_char_def is_alpha_def is_decimal_def code_def
        is_body_call_def)

text \<open>
  C1 as the program has it. The handler tests the path that \<^verbatim>\<open>new URL\<close> gives, in which
  the dot segments are resolved. When that path begins with \<^verbatim>\<open>/git/\<close> and what follows
  contains \<^verbatim>\<open>..\<close> or \<^verbatim>\<open>//\<close>, the request is answered with status 400 and the body
  \<^verbatim>\<open>Bad Request\<close>; the handler returns before \<^verbatim>\<open>handleGitRequest\<close>, so no backend is
  spawned, whatever \<^verbatim>\<open>spawn\<close> would do, and nothing touches the file system (the request
  has no effect outside its response).
\<close>

theorem bad_request_before_dispatch:
  assumes "new_URL rt (url req) = Some u"
    and "startsWith (pathname u) ''/git/''"
    and "includes_sub (drop 5 (pathname u)) ''..'' \<or> includes_sub (drop 5 (pathname u)) ''//''"
  shows "\<exists>c. requestHandler_spawning gitProcess rt dirname process_env req fresh = Inr c
           \<and> serve rt dirname process_env req b = Inr c
           \<and> calls c = [SetStatus (Num 400), End (Some ''Bad Request'')]
           \<and> response_status (calls c) = Num 400
           \<and> response_headers (calls c) = []
           \<and> response_body (calls c) = ''Bad Request''
           \<and> response_ended (calls c)
           \<and> effects c = []"
proof -
  let ?c = "fresh\<lparr> calls := [SetStatus (Num 400), End (Some ''Bad Request'')] \<rparr>"
  have r: "requestHandler_spawning g rt dirname process_env req fresh = Inr ?c" for g
    using assms unfolding requestHandler_spawning_def
    by (simp add: bad_request_calls del: do_calls.simps)
  have s: "serve rt dirname process_env req b = Inr ?c"
    unfolding serve_def r by (simp add: fresh_def)
  show ?thesis
    unfolding r s by (simp add: fresh_def response_status_def response_ended_def)
qed

text \<open>
  C1 says that every request whose path begins with \<^verbatim>\<open>/git/\<close> and goes on with something
  that contains \<^verbatim>\<open>..\<close> is answered 400 and spawns nothing. The URL parser resolves a
  segment \<^verbatim>\<open>..\<close> before the handler looks: \<^verbatim>\<open>GET /git/a/../b\<close> is handed to the backend
  with the path \<^verbatim>\<open>/b\<close>.
\<close>

theorem dot_segment_is_dispatched:
  "startsWith (url (get ''/git/a/../b'')) ''/git/''
   \<and> includes_sub (drop 5 (url (get ''/git/a/../b''))) ''..''
   \<and> requestHandler example_rt ''/srv'' [] (get ''/git/a/../b'') fresh
       = Inr (listening
           [Spawn ''git'' [''http-backend'']
              [(''GIT_PROJECT_ROOT'', ''/srv/git-server-volume''),
               (''GIT_HTTP_EXPORT_ALL'', ''1''),
               (''PATH_INFO'', ''/b''),
               (''REQUEST_METHOD'', ''GET''),
               (''QUERY_STRING'', ''''),
               (''CONTENT_TYPE'', ''''),
               (''CONTENT_LENGTH'', ''0''),
               (''HTTP_USER_AGENT'', ''''),
               (''HTTP_AUTHORIZATION'', ''''),
               (''REMOTE_ADDR'', ''127.0.0.1''),
               (''REMOTE_USER'', ''''),
               (''SERVER_NAME'', ''localhost''),
               (''SERVER_PORT'', ''3334'')],
            PipeRequestBody])"
  by (simp add: request_defs)

theorem bad_request_before_dispatch_witness:
  "new_URL example_rt (url (get ''/git/a..b//info/refs''))
     = Some \<lparr> pathname = ''/git/a..b//info/refs'', searchParams = [] \<rparr>
   \<and> (\<exists>c. requestHandler_spawning Child_with_streams example_rt ''/srv'' []
             (get ''/git/a..b//info/refs'') fresh = Inr c
          \<and> serve example_rt ''/srv'' [] (get ''/git/a..b//info/refs'') (Running []) = Inr c
          \<and> calls c = [SetStatus (Num 400), End (Some ''Bad Request'')]
          \<and> response_status (calls c) = Num 400
          \<and> response_headers (calls c) = []
          \<and> response_body (calls c) = ''Bad Request''
          \<and> response_ended (calls c)
          \<and> effects c = [])"
proof -
  have u: "new_URL example_rt (url (get ''/git/a..b//info/refs''))
      = Some \<lparr> pathname = ''/git/a..b//info/refs'', searchParams = [] \<rparr>"
    by (simp add: url_defs get_def)
  have p: "startsWith (pathname \<lparr> pathname = ''/git/a..b//info/refs'', searchParams = [] \<rparr>) ''/git/''"
    by (simp add: startsWith_def)
  have d: "includes_sub (drop 5 (pathname \<lparr> pathname = ''/git/a..b//info/refs'', searchParams = [] \<rparr>)) ''..''
      \<or> includes_sub (drop 5 (pathname \<lparr> pathname = ''/git/a..b//info/refs'', searchParams = [] \<rparr>)) ''//''"
    by (simp add: startsWith_def)
  show ?thesis
    using u bad_request_before_dispatch [OF u p d, of Child_with_streams "''/srv''" "[]" "Running []"]
    by simp
qed

text \<open>
  C7 as the program has it. When the URL parser accepts the target of the request and the
  path it gives does not begin with \<^verbatim>\<open>/git/\<close>, the request is answered with status 404,
  the header \<^verbatim>\<open>Content-Type: text/plain\<close> and the body \<^verbatim>\<open>Not Found\<close>, and no backend is
  spawned.
\<close>

theorem not_found_outside_git:
  assumes "new_URL rt (url req) = Some u"
    and "\<not> startsWith (pathname u) ''/git/''"
  shows "\<exists>c. requestHandler_spawning gitProcess rt dirname process_env req fresh = Inr c
           \<and> serve rt dirname process_env req b = Inr c
           \<and> calls c = [SetStatus (Num 404), SetHeader ''Content-Type'' ''text/plain'',
                         End (Some ''Not Found'')]
           \<and> response_status (calls c) = Num 404
           \<and> response_headers (calls c) = [(''Content-Type'', ''text/plain'')]
           \<and> response_body (calls c) = ''Not Found''
           \<and> response_ended (calls c)
           \<and> effects c = []"
proof -
  let ?c = "fresh\<lparr> calls := [SetStatus (Num 404), SetHeader ''Content-Type'' ''text/plain'',
                              End (Some ''Not Found'')] \<rparr>"
  have r: "requestHandler_spawning g rt dirname process_env req fresh = Inr ?c" for g
    using assms unfolding requestHandler_spawning_def
    by (simp add: not_found_calls del: do_calls.simps)
  have s: "serve rt dirname process_env req b = Inr ?c"
    unfolding serve_def r by (simp add: fresh_def)
  show ?thesis
    unfolding r s by (simp add: fresh_def response_status_def response_ended_def)
qed

theorem not_found_outside_git_witness:
  "new_URL example_rt (url (get ''/index.html?x=1''))
     = Some \<lparr> pathname = ''/index.html'', searchParams = [(''x'', ''1'')] \<rparr>
   \<and> (\<exists>c. requestHandler_spawning Child_with_streams example_rt ''/srv'' []
             (get ''/index.html?x=1'') fresh = Inr c
          \<and> serve example_rt ''/srv'' [] (get ''/index.html?x=1'') (Running []) = Inr c
          \<and> calls c = [SetStatus (Num 404), SetHeader ''Content-Type'' ''text/plain'',
                        End (Some ''Not Found'')]
          \<and> response_status (calls c) = Num 404
          \<and> response_headers (calls c) = [(''Content-Type'', ''text/plain'')]
          \<and> response_body (calls c) = ''Not Found''
          \<and> response_ended (calls c)
          \<and> effects c = [])"
proof -
  have u: "new_URL example_rt (url (get ''/index.html?x=1''))
      = Some \<lparr> pathname = ''/index.html'', searchParams = [(''x'', ''1'')] \<rparr>"
    by (simp add: url_defs get_def)
  have p: "\<not> startsWith (pathname \<lparr> pathname = ''/index.html'', searchParams = [(''x'', ''1'')] \<rparr>) ''/git/''"
    by (simp add: startsWith_def)
  show ?thesis
    using u not_found_outside_git [OF u p, of Child_with_streams "''/srv''" "[]" "Running []"]
    by simp
qed

text \<open>
  C7 says that every request whose path does not begin with \<^verbatim>\<open>/git/\<close> is answered 404.
  The target \<^verbatim>\<open>//\<close> is no URL: \<^verbatim>\<open>new URL\<close> throws, nothing catches the exception, and
  the process ends with no answer to this request or to a later one. And a path that
  comes to begin with \<^verbatim>\<open>/git/\<close> once its dot segments are resolved is handed to the
  backend.
\<close>

theorem invalid_target_is_not_answered:
  "\<not> startsWith (url (get ''//'')) ''/git/''
   \<and> requestHandler example_rt ''/srv'' [] (get ''//'') fresh = Inl (ERR_INVALID_URL ''//'', fresh)
   \<and> server example_rt ''/srv'' [] [(get ''//'', Running []), (get ''/index.html'', Running [])]
       = Inl (ERR_INVALID_URL ''//'', [fresh])
   \<and> \<not> startsWith (url (get ''/x/../git/repos1.git/info/refs'')) ''/git/''
   \<and> requestHandler example_rt ''/srv'' [] (get ''/x/../git/repos1.git/info/refs'') fresh
       = Inr (listening
           [Spawn ''git'' [''http-backend'']
              [(''GIT_PROJECT_ROOT'', ''/srv/git-server-volume''),
               (''GIT_HTTP_EXPORT_ALL'', ''1''),
               (''PATH_INFO'', ''/repos1.git/info/refs''),
               (''REQUEST_METHOD'', ''GET''),
               (''QUERY_STRING'', ''''),
               (''CONTENT_TYPE'', ''''),
               (''CONTENT_LENGTH'', ''0''),
               (''HTTP_USER_AGENT'', ''''),
               (''HTTP_AUTHORIZATION'', ''''),
               (''REMOTE_ADDR'', ''127.0.0.1''),
               (''REMOTE_USER'', ''''),
               (''SERVER_NAME'', ''localhost''),
               (''SERVER_PORT'', ''3334'')],
            PipeRequestBody])"
  by (simp add: request_defs)

subsection \<open>Requests handed to the backend\<close>

lemma handleGitRequest_listening:
  "new_URL rt (url req) = Some u \<Longrightarrow>
   handleGitRequest_spawning Child_with_streams rt dirname process_env req fresh =
     Inr (listening [Spawn ''git'' [''http-backend''] (env rt dirname process_env req u),
                     PipeRequestBody])"
  by (simp add: handleGitRequest_spawning_def listening_def fresh_def)

lemma dispatched:
  assumes "new_URL rt (url req) = Some u"
    and "startsWith (pathname u) ''/git/''"
    and "\<not> includes_sub (drop 5 (pathname u)) ''..''"
    and "\<not> includes_sub (drop 5 (pathname u)) ''//''"
  shows "requestHandler_spawning Child_with_streams rt dirname process_env req fresh =
           Inr (listening [Spawn ''git'' [''http-backend''] (env rt dirname process_env req u),
                           PipeRequestBody])"
  using assms by (simp add: requestHandler_spawning_def handleGitRequest_listening)

text \<open>
  C5 says that the router accepts \<^verbatim>\<open>info/refs\<close> with GET only and the RPC endpoints with POST
  and a matching content type only, and rejects every other request instead of dispatching
  it. The program has no such check: \<^verbatim>\<open>requestHandler\<close> looks at the path alone and
  \<^verbatim>\<open>handleGitRequest\<close> copies the method and the content type into the environment of the
  backend. A POST with content type \<^verbatim>\<open>text/plain\<close> to the advertisement endpoint is
  dispatched: the backend is spawned and the handler asks nothing of the response.
\<close>

theorem method_mismatch_is_dispatched:
  "\<exists>c. requestHandler example_rt ''/srv'' [] post_to_info_refs fresh = Inr c
       \<and> calls c = []
       \<and> effects c =
           [Spawn ''git'' [''http-backend'']
              [(''GIT_PROJECT_ROOT'', ''/srv/git-server-volume''),
               (''GIT_HTTP_EXPORT_ALL'', ''1''),
               (''PATH_INFO'', ''/repos1.git/info/refs''),
               (''REQUEST_METHOD'', ''POST''),
               (''QUERY_STRING'', ''service=git-upload-pack''),
               (''CONTENT_TYPE'', ''text/plain''),
               (''CONTENT_LENGTH'', ''0''),
               (''HTTP_USER_AGENT'', ''''),
               (''HTTP_AUTHORIZATION'', ''''),
               (''REMOTE_ADDR'', ''127.0.0.1''),
               (''REMOTE_USER'', ''''),
               (''SERVER_NAME'', ''localhost''),
               (''SERVER_PORT'', ''3334'')],
            PipeRequestBody]"
  by (simp add: request_defs post_to_info_refs_def)

text \<open>
  C5 as the program has it: every request whose path begins with \<^verbatim>\<open>/git/\<close> and whose
  remaining path contains neither \<^verbatim>\<open>..\<close> nor \<^verbatim>\<open>//\<close> is dispatched to the backend,
  whatever its method and content type; the two are handed to the backend unchanged as
  \<^verbatim>\<open>REQUEST_METHOD\<close> and \<^verbatim>\<open>CONTENT_TYPE\<close> (the empty string when the header is absent).
  Here as everywhere \<open>requestHandler\<close> is the handler when \<^verbatim>\<open>spawn\<close> returns a child with
  its streams.
\<close>

theorem dispatch_ignores_method:
  assumes "new_URL rt (url req) = Some u"
    and "startsWith (pathname u) ''/git/''"
    and "\<not> includes_sub (drop 5 (pathname u)) ''..''"
    and "\<not> includes_sub (drop 5 (pathname u)) ''//''"
  shows "requestHandler rt dirname process_env req fresh =
           Inr (listening [Spawn ''git'' [''http-backend''] (env rt dirname process_env req u),
                           PipeRequestBody])
         \<and> map_of (env rt dirname process_env req u) ''REQUEST_METHOD'' = Some (req_method req)
         \<and> map_of (env rt dirname process_env req u) ''CONTENT_TYPE''
             = Some (or_else (header req ''content-type'') '''')"
  using dispatched [OF assms, of dirname process_env]
  by (simp add: requestHandler_def env_def defineProperty_def AList.update_conv')

theorem dispatch_ignores_method_witness:
  "requestHandler example_rt ''/srv'' [] post_to_info_refs fresh =
     Inr (listening [Spawn ''git'' [''http-backend'']
                       (env example_rt ''/srv'' [] post_to_info_refs info_refs_URL),
                     PipeRequestBody])
   \<and> map_of (env example_rt ''/srv'' [] post_to_info_refs info_refs_URL) ''REQUEST_METHOD''
       = Some ''POST''
   \<and> map_of (env example_rt ''/srv'' [] post_to_info_refs info_refs_URL) ''CONTENT_TYPE''
       = Some ''text/plain''"
proof -
  have u: "new_URL example_rt (url post_to_info_refs) = Some info_refs_URL"
    by (simp add: url_defs post_to_info_refs_def info_refs_URL_def)
  have p: "startsWith (pathname info_refs_URL) ''/git/''"
    by (simp add: info_refs_URL_def startsWith_def)
  have d: "\<not> includes_sub (drop 5 (pathname info_refs_URL)) ''..''"
    by (simp add: info_refs_URL_def startsWith_def)
  have s: "\<not> includes_sub (drop 5 (pathname info_refs_URL)) ''//''"
    by (simp add: info_refs_URL_def startsWith_def)
  have m: "req_method post_to_info_refs = ''POST''"
    by (simp add: post_to_info_refs_def)
  have t: "or_else (header post_to_info_refs ''content-type'') '''' = ''text/plain''"
    by (simp add: post_to_info_refs_def or_else_def header_def)
  show ?thesis
    using dispatch_ignores_method [OF u p d s, of "''/srv''" "[]"] by (simp add: m t)
qed




subsection \<open>Provisioning\<close>

lemma sh_keeps: "fs q \<noteq> None \<Longrightarrow> fst (sh refused cmds cwd fs) q \<noteq> None"
  by (induction cmds arbitrary: cwd fs) (auto split: command.splits option.splits)

lemma sh_script_creates:
  "sh refused (script rt p) cwd fs = (fs', True) \<Longrightarrow> fs' (shell_word rt p) \<noteq> None"
  by (auto simp: script_def split: if_splits option.splits)

lemma provision_existing:
  "files h (repoPath rt dirname repoName) \<noteq> None \<Longrightarrow>
   provision rt dirname refused cwd repoName h =
     Inr (h\<lparr> console := console h @
              [ExistsSync (repoPath rt dirname repoName),
               ConsoleLog (quoted repoName @ '' git bare repository already exists'')] \<rparr>)"
  by (simp add: provision_def Let_def)

lemma provision_creates:
  "provision rt dirname refused cwd repoName h = Inr h1 \<Longrightarrow>
   shell_word rt (repoPath rt dirname repoName) = repoPath rt dirname repoName \<Longrightarrow>
   files h1 (repoPath rt dirname repoName) \<noteq> None"
  by (auto simp: provision_def Let_def split: if_splits prod.splits dest: sh_script_creates)

lemma provision_keeps:
  "provision rt dirname refused cwd repoName h = Inr h1 \<Longrightarrow> files h q \<noteq> None \<Longrightarrow>
   files h1 q \<noteq> None"
  using sh_keeps [of "files h" q refused "script rt (repoPath rt dirname repoName)" cwd]
  by (auto simp: provision_def Let_def split: if_splits prod.splits)

text \<open>
  C6. For every repository name, when the directory of the repository exists the
  provisioning step only looks and logs: the file system is left as it was, and no script
  runs (no \<^verbatim>\<open>mkdir\<close>, no \<^verbatim>\<open>git init\<close>, no \<^verbatim>\<open>git config\<close>).
\<close>

theorem provision_existing_creates_nothing:
  assumes "files h (repoPath rt dirname repoName) \<noteq> None"
  shows "\<exists>h'. provision rt dirname refused cwd repoName h = Inr h'
           \<and> files h' = files h
           \<and> console h' = console h @
               [ExistsSync (repoPath rt dirname repoName),
                ConsoleLog (quoted repoName @ '' git bare repository already exists'')]
           \<and> filter is_creation (console h') = filter is_creation (console h)"
  using provision_existing [OF assms, of refused cwd] by (simp add: is_creation_def)

theorem provision_existing_creates_nothing_witness:
  "files provisioned_once (repoPath example_rt ''/srv'' ''repos1'') \<noteq> None
   \<and> (\<exists>h'. provision example_rt ''/srv'' (\<lambda>cmd. False) ''/srv'' ''repos1'' provisioned_once = Inr h'
           \<and> files h' = files provisioned_once
           \<and> console h' = console provisioned_once @
               [ExistsSync (repoPath example_rt ''/srv'' ''repos1''),
                ConsoleLog (quoted ''repos1'' @ '' git bare repository already exists'')]
           \<and> filter is_creation (console h') = filter is_creation (console provisioned_once))"
proof -
  have e: "files provisioned_once (repoPath example_rt ''/srv'' ''repos1'') \<noteq> None"
    by (simp add: provisioned_once_def repoPath_def GIT_PROJECT_ROOT_def example_rt_def)
  show ?thesis
    using e provision_existing_creates_nothing [OF e] by blast
qed

text \<open>
  Hence a second run after a first one that returned, when the shell reads the paths as
  they are written: the first run leaves the directory in place (it was there, or
  \<^verbatim>\<open>mkdir -p\<close> made it), so the second creates nothing, for one name and for the three
  names of the program.
\<close>

lemma provision_twice:
  assumes "provision rt dirname refused cwd repoName h = Inr h1"
    and "shell_word rt (repoPath rt dirname repoName) = repoPath rt dirname repoName"
  shows "provision rt dirname refused' cwd' repoName h1 =
     Inr (h1\<lparr> console := console h1 @
              [ExistsSync (repoPath rt dirname repoName),
               ConsoleLog (quoted repoName @ '' git bare repository already exists'')] \<rparr>)"
  by (rule provision_existing) (rule provision_creates [OF assms])

lemma provisioning_twice:
  assumes "provisioning rt dirname refused cwd h = Inr h1"
    and "\<And>p. shell_word rt p = p"
  shows "\<exists>h2. provisioning rt dirname refused' cwd' h1 = Inr h2 \<and> files h2 = files h1
           \<and> filter is_creation (console h2) = filter is_creation (console h1)"
proof -
  from assms(1) obtain a b where
    a: "provision rt dirname refused cwd ''repos1'' h = Inr a" and
    b: "provision rt dirname refused cwd ''repos2'' a = Inr b" and
    c: "provision rt dirname refused cwd ''repos3'' b = Inr h1"
    by (auto simp: provisioning_def split: sum.splits)
  have e3: "files h1 (repoPath rt dirname ''repos3'') \<noteq> None"
    by (rule provision_creates [OF c assms(2)])
  have e2: "files h1 (repoPath rt dirname ''repos2'') \<noteq> None"
    by (rule provision_keeps [OF c]) (rule provision_creates [OF b assms(2)])
  have e1: "files h1 (repoPath rt dirname ''repos1'') \<noteq> None"
    by (rule provision_keeps [OF c], rule provision_keeps [OF b])
       (rule provision_creates [OF a assms(2)])
  show ?thesis
    using e1 e2 e3
    by (simp add: provisioning_def provision_existing is_creation_def)
qed

subsection \<open>The translation of the header section\<close>

lemmas listener_defs = stdout_events_def listening_def fresh_def stdout_data_def stdout_end_def
  stderr_data_def backend_error_def parseHeaders_def processHeader_def split_def startsWith_def
  CRLF_def CRLFCRLF_def trim_def isWhiteSpace_def toLowerCase_def lower_char_def parseInt_def
  to_double_def negate_def is_digit_def digit_of_def digits_value_def entries_def
  array_index_def assign_def example_rt_def call_def head_refusal_def header_refusal_def
  head_sent_def response_ended_def response_status_def status_ok_def toInt32_def
  checkIsHttpToken_def checkInvalidHeaderChar_def token_char_def is_alpha_def is_decimal_def
  is_body_call_def code_def thrown_def res_calls_def final_def Let_def char_of_eq_iff

lemmas line_defs = header_lines_def forwarded_def fields_def translate_def status_calls_def
  header_calls_def is_field_line_def is_status_line_def is_header_line_def header_name_def
  header_value_def status_value_def accepted_def first_refusal_def



subsection \<open>Examples of streams\<close>

lemma example_run:
  "run example_rt (stdout_events example_chunks) (listening [])
     = Inr ((listening [])
         \<lparr> calls := [SetStatus (Num 404), SetHeader ''Content-Type'' ''text/plain'',
                      Write ''hello'', Write '' world'', End None],
           responseHeaders := [(''Content-Type'', ''text/plain'')],
           headersParsed := True,
           responseBuffer := ''Status: 404 Not Found'' @ CRLF @ ''Content-Type: text/plain''
                             @ CRLFCRLF @ ''hello'' \<rparr>)"
  by (simp add: example_chunks_def listener_defs)

lemma example_lines:
  "header_lines example_rt (concat example_chunks) 47
     = [''Status: 404 Not Found'', ''Content-Type: text/plain'']"
  by (simp add: example_chunks_def header_lines_def example_rt_def split_def startsWith_def CRLF_def)


lemma example_occurrence: "first_occurrence (concat example_chunks) CRLFCRLF 47"
  by (rule indexOf_first) (simp add: example_chunks_def CRLF_def CRLFCRLF_def startsWith_def)



theorem no_delimiter_no_output_witness:
  "\<not> includes_sub (concat (stdout_chunks [Stdout ''fatal: '', Stderr ''warning'', Stdout ''not a git repository'']))
       CRLFCRLF
   \<and> thrown (run example_rt
        (events_of (Ended [Stdout ''fatal: '', Stderr ''warning'', Stdout ''not a git repository''] [''bye'']))
        (listening [])) = None
   \<and> res_calls (run example_rt
        (events_of (Ended [Stdout ''fatal: '', Stderr ''warning'', Stdout ''not a git repository''] [''bye'']))
        (listening [])) = [End None]
   \<and> response_status (res_calls (run example_rt
        (events_of (Ended [Stdout ''fatal: '', Stderr ''warning'', Stdout ''not a git repository''] [''bye'']))
        (listening []))) = Num 200
   \<and> response_body (res_calls (run example_rt
        (events_of (Ended [Stdout ''fatal: '', Stderr ''warning'', Stdout ''not a git repository''] [''bye'']))
        (listening []))) = []"
proof -
  have n: "\<not> includes_sub (concat (stdout_chunks [Stdout ''fatal: '', Stderr ''warning'', Stdout ''not a git repository'']))
       CRLFCRLF"
    by (simp add: CRLFCRLF_def startsWith_def)
  show ?thesis
    using n no_delimiter_no_output [OF n, of example_rt "[''bye'']" "[]"] by blast
qed

theorem head_before_body_witness:
  "first_occurrence (concat (stdout_chunks example_outputs)) CRLFCRLF 47
   \<and> head_then_body (res_calls (run example_rt (events_of (Ended example_outputs [''bye''])) (listening [])))
   \<and> filter is_head_call
        (res_calls (run example_rt (events_of (Ended example_outputs [''bye''])) (listening [])))
       = [SetStatus (Num 404), SetHeader ''Content-Type'' ''text/plain'']
   \<and> filter is_head_call
        (res_calls (run example_rt (events_of (Running example_outputs)) (listening [])))
       = [SetStatus (Num 404), SetHeader ''Content-Type'' ''text/plain'']
   \<and> filter is_head_call
        (res_calls (run example_rt (events_of (Spawn_fails ''spawn git ENOENT'')) (listening [])))
       = [SetStatus (Num 500)]
   \<and> \<not> includes_sub (concat (stdout_chunks [Stdout ''fatal'', Stderr ''warning''])) CRLFCRLF
   \<and> filter is_head_call
        (res_calls (run example_rt (events_of (Running [Stdout ''fatal'', Stderr ''warning''])) (listening [])))
       = []"
proof -
  have c: "concat (stdout_chunks example_outputs) = concat example_chunks"
    by (simp add: example_outputs_def example_chunks_def)
  have f: "first_occurrence (concat (stdout_chunks example_outputs)) CRLFCRLF 47"
    unfolding c by (rule example_occurrence)
  have l: "header_lines example_rt (concat (stdout_chunks example_outputs)) 47
      = [''Status: 404 Not Found'', ''Content-Type: text/plain'']"
    unfolding c by (rule example_lines)
  have t: "status_calls [''Status: 404 Not Found'', ''Content-Type: text/plain'']
      @ header_calls (takeWhile accepted (forwarded [''Status: 404 Not Found'', ''Content-Type: text/plain'']))
      = [SetStatus (Num 404), SetHeader ''Content-Type'' ''text/plain'']"
    by (simp add: line_defs listener_defs)
  have n: "\<not> includes_sub (concat (stdout_chunks [Stdout ''fatal'', Stderr ''warning''])) CRLFCRLF"
    by (simp add: CRLFCRLF_def startsWith_def)
  from head_before_body [of example_rt "Ended example_outputs [''bye'']" "[]" "''x''"
      example_outputs "[''bye'']" 47] f
  have "head_then_body (res_calls (run example_rt (events_of (Ended example_outputs [''bye''])) (listening [])))
      \<and> filter is_head_call
           (res_calls (run example_rt (events_of (Ended example_outputs [''bye''])) (listening [])))
          = [SetStatus (Num 404), SetHeader ''Content-Type'' ''text/plain'']"
    unfolding l t by blast
  moreover from head_before_body [of example_rt "Running example_outputs" "[]" "''x''"
      example_outputs "[]" 47] f
  have "filter is_head_call
           (res_calls (run example_rt (events_of (Running example_outputs)) (listening [])))
          = [SetStatus (Num 404), SetHeader ''Content-Type'' ''text/plain'']"
    unfolding l t by blast
  moreover from head_before_body [of example_rt "Spawn_fails ''spawn git ENOENT''" "[]"
      "''spawn git ENOENT''" "[]" "[]" 0]
  have "filter is_head_call
        (res_calls (run example_rt (events_of (Spawn_fails ''spawn git ENOENT'')) (listening [])))
       = [SetStatus (Num 500)]"
    by blast
  moreover from head_before_body [of example_rt "Running [Stdout ''fatal'', Stderr ''warning'']" "[]"
      "''x''" "[Stdout ''fatal'', Stderr ''warning'']" "[]" 0] n
  have "filter is_head_call
        (res_calls (run example_rt (events_of (Running [Stdout ''fatal'', Stderr ''warning''])) (listening [])))
       = []"
    by blast
  ultimately show ?thesis using f n by blast
qed

text \<open>
  C4 says that for every request handed to the backend the status code and the headers are
  set exactly once. They are set as often as the header section says: never when the output
  has no CR LF CR LF (the response keeps the default status), and the status twice when the
  section has two \<^verbatim>\<open>Status\<close> lines.
\<close>

theorem head_not_set_exactly_once:
  "filter is_head_call
     (res_calls (run example_rt (stdout_events [''fatal: not a git repository'']) (listening [])))
     = []
   \<and> filter is_head_call
       (res_calls (run example_rt
          (stdout_events [''Status: 404 Not Found'' @ CRLF @ ''Status: 200 OK'' @ CRLFCRLF])
          (listening [])))
     = [SetStatus (Num 404), SetStatus (Num 200)]"
  by (simp add: listener_defs)

end
